theory Spec2Isabelle
  imports Main "HOL-Library.Finite_Map"
begin

section \<open>Values of the editor\<close>

text \<open>
  The editor of \<^verbatim>\<open>src/components/editor.js\<close> keeps its document as a tree of
  Immutable.js collections (\<^verbatim>\<open>Immutable.fromJS\<close> of a babel AST): every node is an
  \<^verbatim>\<open>Immutable.Map\<close> from field names to values, every collection of nodes an
  \<^verbatim>\<open>Immutable.List\<close>. A selection is an \<^verbatim>\<open>Immutable.List\<close> of steps, each a
  field name or an index.

  \<open>prim\<close> are the JavaScript primitives that occur as leaves of the tree and as steps of
  a path. Numbers are the integers and \<open>NaN\<close>: the editor computes indices, sizes and
  \<open>\<plusminus>1\<close> only. \<open>imm\<close> are the Immutable values; a \<open>Map\<close> is a finite map, so that HOL
  equality on \<open>imm\<close> is the value equality of \<^verbatim>\<open>Immutable.is\<close> (entry order is
  irrelevant in a Map, relevant in a List).
\<close>

datatype prim = Undefined | Null | Bool bool | Num int | NaN | Str string

datatype imm = P prim | IList "imm list" | IMap "(prim, imm) fmap"

type_synonym path = "prim list"

datatype error =
    TypeError        \<comment> \<open>a method call or property read on a value that has none\<close>
  | InvalidKeyPath   \<comment> \<open>\<^verbatim>\<open>updateIn\<close> through a value that is not a collection\<close>

definition bnd :: "error + 'a \<Rightarrow> ('a \<Rightarrow> error + 'b) \<Rightarrow> error + 'b" where
  "bnd m f = (case m of Inl e \<Rightarrow> Inl e | Inr x \<Rightarrow> f x)"

fun truthy_prim :: "prim \<Rightarrow> bool" where
  "truthy_prim Undefined = False"
| "truthy_prim Null = False"
| "truthy_prim (Bool b) = b"
| "truthy_prim (Num i) = (i \<noteq> 0)"
| "truthy_prim NaN = False"
| "truthy_prim (Str s) = (s \<noteq> [])"

fun truthy :: "imm \<Rightarrow> bool" where
  "truthy (P p) = truthy_prim p"
| "truthy (IList xs) = True"
| "truthy (IMap m) = True"

fun is_coll :: "imm \<Rightarrow> bool" where
  "is_coll (P p) = False"
| "is_coll (IList xs) = True"
| "is_coll (IMap m) = True"

subsection \<open>Strings read as numbers\<close>

definition is_digit :: "char \<Rightarrow> bool" where
  "is_digit c = (48 \<le> (of_char c :: nat) \<and> (of_char c :: nat) \<le> 57)"

definition digits_value :: "string \<Rightarrow> nat" where
  "digits_value ds = foldl (\<lambda>a c. 10 * a + ((of_char c :: nat) - 48)) 0 ds"

definition is_space :: "char \<Rightarrow> bool" where
  "is_space c = ((of_char c :: nat) \<in> {9, 10, 11, 12, 13, 32})"

text \<open>
  \<^verbatim>\<open>wrapIndex\<close> of Immutable.js accepts a string as an index when it is the decimal
  writing of an unsigned 32-bit number other than \<open>2\<^sup>3\<^sup>2 - 1\<close>
  (\<^verbatim>\<open>'' + (index >>> 0) === index\<close>).
\<close>

definition uint32_index :: "string \<Rightarrow> nat option" where
  "uint32_index s =
     (if s = [] \<or> \<not> list_all is_digit s \<or> (hd s = CHR ''0'' \<and> s \<noteq> ''0'') then None
      else if digits_value s < 4294967295 then Some (digits_value s) else None)"

text \<open>
  \<^verbatim>\<open>parseInt(x, 10)\<close>: blanks, a sign, then the longest run of digits; \<open>None\<close> is
  \<open>NaN\<close>.
\<close>

definition parseInt_str :: "string \<Rightarrow> int option" where
  "parseInt_str s =
     (let s1 = dropWhile is_space s;
          neg = (s1 \<noteq> [] \<and> hd s1 = CHR ''-'');
          s2 = (if s1 \<noteq> [] \<and> (hd s1 = CHR ''-'' \<or> hd s1 = CHR ''+'') then tl s1 else s1);
          ds = takeWhile is_digit s2
      in if ds = [] then None
         else Some (if neg then - int (digits_value ds) else int (digits_value ds)))"

fun parseInt :: "prim \<Rightarrow> int option" where
  "parseInt (Num i) = Some i"
| "parseInt (Str s) = parseInt_str s"
| "parseInt _ = None"

text \<open>
  \<^verbatim>\<open>ToNumber\<close> of a string, as far as the editor can meet it: the empty string is 0, a
  run of digits its value; every other string is read as \<open>NaN\<close> (\<open>None\<close>). Signs,
  fractions, exponents, hexadecimal and blanks are not modelled; no path the editor
  builds has such a step.
\<close>

definition toNumber_str :: "string \<Rightarrow> nat option" where
  "toNumber_str s = (if list_all is_digit s then Some (digits_value s) else None)"

section \<open>Immutable.js\<close>

subsection \<open>List\<close>

text \<open>\<^verbatim>\<open>wrapIndex\<close>: a negative number counts from the end; \<open>None\<close> is \<open>NaN\<close>.\<close>

fun wrapIndex :: "nat \<Rightarrow> prim \<Rightarrow> int option" where
  "wrapIndex n (Num i) = Some (if i < 0 then int n + i else i)"
| "wrapIndex n (Str s) = map_option int (uint32_index s)"
| "wrapIndex n _ = None"

text \<open>\<^verbatim>\<open>List.get(index, NOT_SET)\<close>; \<open>None\<close> is \<^verbatim>\<open>NOT_SET\<close>.\<close>

definition list_get :: "imm list \<Rightarrow> prim \<Rightarrow> imm option" where
  "list_get xs k =
     (case wrapIndex (length xs) k of
        None \<Rightarrow> None
      | Some i \<Rightarrow> if 0 \<le> i \<and> i < int (length xs) then Some (xs ! nat i) else None)"

text \<open>
  \<^verbatim>\<open>List.set(index, value)\<close>: beyond either end the list grows, the gap filled with
  \<^verbatim>\<open>undefined\<close>.
\<close>

definition list_set :: "imm list \<Rightarrow> prim \<Rightarrow> imm \<Rightarrow> imm list" where
  "list_set xs k v =
     (case wrapIndex (length xs) k of
        None \<Rightarrow> xs
      | Some i \<Rightarrow>
          if i < 0 then v # replicate (nat (- i) - 1) (P Undefined) @ xs
          else if int (length xs) \<le> i
            then xs @ replicate (nat i - length xs) (P Undefined) @ [v]
          else xs[nat i := v])"

text \<open>\<^verbatim>\<open>List.delete(index)\<close>: nothing happens unless the list has the index.\<close>

definition list_delete :: "imm list \<Rightarrow> prim \<Rightarrow> imm list" where
  "list_delete xs k =
     (case wrapIndex (length xs) k of
        None \<Rightarrow> xs
      | Some i \<Rightarrow>
          if 0 \<le> i \<and> i < int (length xs) then take (nat i) xs @ drop (Suc (nat i)) xs
          else xs)"

text \<open>
  \<^verbatim>\<open>List.insert(index, value)\<close> is \<^verbatim>\<open>splice(index, 0, value)\<close>; the position is
  \<^verbatim>\<open>resolveBegin(index, size)\<close>: \<^verbatim>\<open>undefined\<close> is 0, a negative number counts from
  the end and stops at 0, anything else is cut to the size and truncated by \<^verbatim>\<open>| 0\<close>.
\<close>

fun resolveBegin :: "nat \<Rightarrow> prim \<Rightarrow> nat" where
  "resolveBegin n (Num i) = (if i < 0 then nat (int n + i) else min n (nat i))"
| "resolveBegin n (Str s) = (case toNumber_str s of None \<Rightarrow> 0 | Some j \<Rightarrow> min n j)"
| "resolveBegin n (Bool b) = (if b then min n 1 else 0)"
| "resolveBegin n _ = 0"

definition list_insert :: "imm list \<Rightarrow> prim \<Rightarrow> imm \<Rightarrow> imm list" where
  "list_insert xs k v = take (resolveBegin (length xs) k) xs @ v # drop (resolveBegin (length xs) k) xs"

subsection \<open>Collections: \<^verbatim>\<open>get\<close>, \<^verbatim>\<open>set\<close>, \<^verbatim>\<open>remove\<close>\<close>

fun coll_get :: "imm \<Rightarrow> prim \<Rightarrow> imm option" where
  "coll_get (IMap m) k = fmlookup m k"
| "coll_get (IList xs) k = list_get xs k"
| "coll_get (P p) k = None"

fun coll_set :: "imm \<Rightarrow> prim \<Rightarrow> imm \<Rightarrow> imm" where
  "coll_set (IMap m) k v = IMap (fmupd k v m)"
| "coll_set (IList xs) k v = IList (list_set xs k v)"
| "coll_set (P p) k v = P p"

fun coll_remove :: "imm \<Rightarrow> prim \<Rightarrow> imm" where
  "coll_remove (IMap m) k = IMap (fmdrop k m)"
| "coll_remove (IList xs) k = IList (list_delete xs k)"
| "coll_remove (P p) k = P p"

subsection \<open>\<^verbatim>\<open>getIn\<close>, \<^verbatim>\<open>updateIn\<close>, \<^verbatim>\<open>deleteIn\<close>\<close>

text \<open>
  \<open>lookupIn\<close> is the loop of \<^verbatim>\<open>getIn\<close> with its \<^verbatim>\<open>NOT_SET\<close> sentinel (\<open>None\<close>): it
  stops at the first missing key, and at a value that is not a collection.
\<close>

fun lookupIn :: "imm \<Rightarrow> path \<Rightarrow> imm option" where
  "lookupIn v [] = Some v"
| "lookupIn v (k # ks) = (case coll_get v k of None \<Rightarrow> None | Some w \<Rightarrow> lookupIn w ks)"

definition getIn :: "imm \<Rightarrow> path \<Rightarrow> imm" where
  "getIn v p = (case lookupIn v p of None \<Rightarrow> P Undefined | Some w \<Rightarrow> w)"

text \<open>
  \<^verbatim>\<open>updateInDeepMap(existing, keyPath, notSetValue, updater)\<close>. \<open>None\<close> is
  \<^verbatim>\<open>NOT_SET\<close>, both for a missing entry and for the result of the updater of
  \<^verbatim>\<open>deleteIn\<close>. A missing collection on the way is created as an empty Map; a value
  that is not a collection on the way is an error. Where the library returns
  \<^verbatim>\<open>existing\<close> because the updated entry is identical, setting the entry gives an
  equal value, so the model sets it.
\<close>

fun updateInDeep :: "imm option \<Rightarrow> path \<Rightarrow> (imm \<Rightarrow> error + imm option) \<Rightarrow> error + imm option" where
  "updateInDeep ex [] f =
     bnd (f (case ex of None \<Rightarrow> P Undefined | Some v \<Rightarrow> v))
       (\<lambda>nv. Inr (if ex = None \<and> nv = Some (P Undefined) then None else nv))"
| "updateInDeep ex (k # ks) f =
     (case ex of
        Some (P p) \<Rightarrow> Inl InvalidKeyPath
      | _ \<Rightarrow>
          bnd (updateInDeep (case ex of None \<Rightarrow> None | Some c \<Rightarrow> coll_get c k) ks f)
            (\<lambda>nu. Inr (case nu of
                 None \<Rightarrow> (case ex of None \<Rightarrow> None | Some c \<Rightarrow> Some (coll_remove c k))
               | Some u \<Rightarrow> Some (coll_set (case ex of None \<Rightarrow> IMap fmempty | Some c \<Rightarrow> c) k u))))"

definition updateIn :: "imm \<Rightarrow> path \<Rightarrow> (imm \<Rightarrow> error + imm option) \<Rightarrow> error + imm" where
  "updateIn v p f =
     bnd (updateInDeep (Some v) p f)
       (\<lambda>r. Inr (case r of None \<Rightarrow> P Undefined | Some t \<Rightarrow> t))"

definition deleteIn :: "imm \<Rightarrow> path \<Rightarrow> error + imm" where
  "deleteIn v p = updateIn v p (\<lambda>_. Inr None)"

text \<open>
  The methods are called on whatever the variable holds: on a value that is not a
  collection the call itself fails.
\<close>

definition m_getIn :: "imm \<Rightarrow> path \<Rightarrow> error + imm" where
  "m_getIn v p = (if is_coll v then Inr (getIn v p) else Inl TypeError)"

definition m_updateIn :: "imm \<Rightarrow> path \<Rightarrow> (imm \<Rightarrow> error + imm option) \<Rightarrow> error + imm" where
  "m_updateIn v p f = (if is_coll v then updateIn v p f else Inl TypeError)"

definition m_deleteIn :: "imm \<Rightarrow> path \<Rightarrow> error + imm" where
  "m_deleteIn v p = (if is_coll v then deleteIn v p else Inl TypeError)"

text \<open>
  \<^verbatim>\<open>x.toJS()\<close> gives the plain JavaScript value of the same shape; it is written with
  the same HOL term, as is \<^verbatim>\<open>Immutable.fromJS\<close> of a plain value.
\<close>

definition toJS :: "imm \<Rightarrow> error + imm" where
  "toJS v = (if is_coll v then Inr v else Inl TypeError)"

definition fromJS :: "imm \<Rightarrow> imm" where
  "fromJS v = v"

section \<open>babel-types\<close>

text \<open>
  The builders give plain objects; the editor converts them with \<^verbatim>\<open>fromJS\<close>. The
  fields are those of the builders of babel-types 6: the builder's arguments, then its
  defaults.
\<close>

definition node :: "string \<Rightarrow> (string \<times> imm) list \<Rightarrow> imm" where
  "node ty fields = IMap (fmap_of_list ((Str ''type'', P (Str ty)) # map (\<lambda>(k, v). (Str k, v)) fields))"

definition nullLiteral :: imm where
  "nullLiteral = node ''NullLiteral'' []"

definition stringLiteral :: "string \<Rightarrow> imm" where
  "stringLiteral s = node ''StringLiteral'' [(''value'', P (Str s))]"

definition objectProperty :: "imm \<Rightarrow> imm \<Rightarrow> imm" where
  "objectProperty k v =
     node ''ObjectProperty''
       [(''key'', k), (''value'', v), (''computed'', P (Bool False)),
        (''shorthand'', P (Bool False)), (''decorators'', P Null)]"

text \<open>
  A test \<^verbatim>\<open>isX(node)\<close> of babel-types is \<^verbatim>\<open>node && node.type === 'X'\<close>. What it
  sees depends on how its argument answers the property read \<^verbatim>\<open>.type\<close>; the read is
  the first argument of the model. On a plain object (the result of \<^verbatim>\<open>toJS\<close>) the
  read is the object's entry: \<open>plain_read\<close>. On an \<^verbatim>\<open>Immutable.Map\<close> or
  \<^verbatim>\<open>Immutable.List\<close> the entries are not properties of the object, and the read is
  \<^verbatim>\<open>undefined\<close>: \<open>immutable_read\<close>.
\<close>

type_synonym reader = "imm \<Rightarrow> string \<Rightarrow> imm"

fun plain_read :: reader where
  "plain_read (IMap m) n = (case fmlookup m (Str n) of None \<Rightarrow> P Undefined | Some v \<Rightarrow> v)"
| "plain_read (IList xs) n = P Undefined"
| "plain_read (P p) n = P Undefined"

definition immutable_read :: reader where
  "immutable_read v n = P Undefined"

definition babel_is :: "string \<Rightarrow> reader \<Rightarrow> imm \<Rightarrow> bool" where
  "babel_is ty rd v = (truthy v \<and> rd v ''type'' = P (Str ty))"

abbreviation isArrayExpression :: "reader \<Rightarrow> imm \<Rightarrow> bool" where
  "isArrayExpression \<equiv> babel_is ''ArrayExpression''"

abbreviation isIdentifier :: "reader \<Rightarrow> imm \<Rightarrow> bool" where
  "isIdentifier \<equiv> babel_is ''Identifier''"

abbreviation isNumericLiteral :: "reader \<Rightarrow> imm \<Rightarrow> bool" where
  "isNumericLiteral \<equiv> babel_is ''NumericLiteral''"

abbreviation isObjectExpression :: "reader \<Rightarrow> imm \<Rightarrow> bool" where
  "isObjectExpression \<equiv> babel_is ''ObjectExpression''"

abbreviation isObjectProperty :: "reader \<Rightarrow> imm \<Rightarrow> bool" where
  "isObjectProperty \<equiv> babel_is ''ObjectProperty''"

abbreviation isStringLiteral :: "reader \<Rightarrow> imm \<Rightarrow> bool" where
  "isStringLiteral \<equiv> babel_is ''StringLiteral''"

definition isEditable :: "imm \<Rightarrow> bool" where
  "isEditable nd =
     (isStringLiteral plain_read nd \<or> isNumericLiteral plain_read nd \<or> isIdentifier plain_read nd)"

section \<open>Paths\<close>

text \<open>The methods of \<^verbatim>\<open>Immutable.List\<close> the editor calls on a selection.\<close>

definition path_last :: "path \<Rightarrow> prim" where
  "path_last p = (if p = [] then Undefined else last p)"

definition path_get :: "path \<Rightarrow> nat \<Rightarrow> prim" where
  "path_get p n = (if n < length p then p ! n else Undefined)"

text \<open>\<^verbatim>\<open>p.slice(0, -k)\<close>\<close>

definition drop_last :: "nat \<Rightarrow> path \<Rightarrow> path" where
  "drop_last k p = take (length p - k) p"

text \<open>\<^verbatim>\<open>p.findLastIndex(pred)\<close>, \<open>-1\<close> when no step satisfies the predicate.\<close>

fun findLastIndex :: "(prim \<Rightarrow> bool) \<Rightarrow> path \<Rightarrow> int" where
  "findLastIndex pr [] = - 1"
| "findLastIndex pr (k # ks) =
     (if 0 \<le> findLastIndex pr ks then 1 + findLastIndex pr ks
      else if pr k then 0 else - 1)"

text \<open>\<^verbatim>\<open>p.update(n, () => x)\<close>, which is \<^verbatim>\<open>p.set(n, x)\<close> for an index \<open>n \<ge> 0\<close>.\<close>

definition path_set :: "path \<Rightarrow> nat \<Rightarrow> prim \<Rightarrow> path" where
  "path_set p n x =
     (if n < length p then p[n := x] else p @ replicate (n - length p) Undefined @ [x])"

text \<open>\<^verbatim>\<open>x || 0\<close> and \<^verbatim>\<open>x + 1 || 0\<close> on a step.\<close>

definition or_zero :: "prim \<Rightarrow> prim" where
  "or_zero x = (if truthy_prim x then x else Num 0)"

fun plus_one :: "prim \<Rightarrow> prim" where
  "plus_one (Num i) = Num (i + 1)"
| "plus_one (Str s) = Str (s @ ''1'')"
| "plus_one Null = Num 1"
| "plus_one (Bool b) = Num (if b then 2 else 1)"
| "plus_one Undefined = NaN"
| "plus_one NaN = NaN"

section \<open>The component\<close>

record editor_state =
  ast :: imm
  selected :: path

text \<open>
  What an update function hands back to \<^verbatim>\<open>addToHistory\<close>: nothing
  (\<^verbatim>\<open>undefined\<close>), or an object with an \<^verbatim>\<open>ast\<close>, a \<^verbatim>\<open>selected\<close>, or both; or it
  throws.
\<close>

record delta =
  d_ast :: "imm option"
  d_selected :: "path option"

type_synonym updateFn = "imm \<Rightarrow> path \<Rightarrow> error + delta option"

text \<open>
  The state of the component (\<^verbatim>\<open>this.state\<close>), the editor state held in
  \<^verbatim>\<open>this.contextValue\<close>, and what has left the component: the texts given to
  \<^verbatim>\<open>props.onChange\<close> and the values given to \<^verbatim>\<open>generate\<close>, oldest first.
\<close>

record editor =
  history :: "editor_state list"
  future :: "editor_state list"
  contextValue :: editor_state
  changes :: "string list"
  generated :: "imm list"

definition MAX_HISTORY_LENGTH :: nat where
  "MAX_HISTORY_LENGTH = 100"

definition SELECTED_PREFIX :: path where
  "SELECTED_PREFIX = [Str ''program'', Str ''body'']"

text \<open>The constructor, for the tree \<^verbatim>\<open>parse(props.defaultValue)\<close>.\<close>

definition initial :: "imm \<Rightarrow> editor" where
  "initial tree =
     \<lparr>history = [\<lparr>ast = tree, selected = SELECTED_PREFIX\<rparr>], future = [],
      contextValue = \<lparr>ast = tree, selected = SELECTED_PREFIX\<rparr>, changes = [], generated = []\<rparr>"

subsection \<open>\<^verbatim>\<open>addToHistory\<close>\<close>

text \<open>
  Lines 219-230: the selection and the tree the update function is called with.
  \<open>canon\<close> is \<^verbatim>\<open>value => parseFloat(value).toString()\<close>.
\<close>

definition prepare :: "(imm \<Rightarrow> imm) \<Rightarrow> editor_state \<Rightarrow> error + editor_state" where
  "prepare canon h =
     bnd (if path_last (selected h) \<noteq> Str ''end''
          then bnd (m_getIn (ast h) (selected h))
                 (\<lambda>v. Inr (if \<not> truthy v then [] else selected h))
          else Inr (selected h))
       (\<lambda>sel.
     bnd (m_getIn (ast h) sel)
       (\<lambda>selectedNode.
     bnd (if truthy selectedNode
          then bnd (toJS selectedNode)
                 (\<lambda>js. if isNumericLiteral plain_read js
                       then m_updateIn (ast h) (sel @ [Str ''value'']) (\<lambda>v. Inr (Some (canon v)))
                       else Inr (ast h))
          else Inr (ast h))
       (\<lambda>tree. Inr \<lparr>ast = tree, selected = sel\<rparr>)))"

text \<open>\<^verbatim>\<open>{ ast, selected, ...result }\<close>\<close>

definition merge :: "editor_state \<Rightarrow> delta option \<Rightarrow> editor_state" where
  "merge s r =
     (case r of
        None \<Rightarrow> s
      | Some d \<Rightarrow>
          \<lparr>ast = (case d_ast d of None \<Rightarrow> ast s | Some t \<Rightarrow> t),
           selected = (case d_selected d of None \<Rightarrow> selected s | Some q \<Rightarrow> q)\<rparr>)"

text \<open>
  Lines 232-244. \<open>gen\<close> is \<^verbatim>\<open>x => generate(x).code\<close>. An exception leaves the updater
  of \<^verbatim>\<open>setState\<close>, and the state is not replaced: the result is the error.
\<close>

definition addToHistory :: "(imm \<Rightarrow> imm) \<Rightarrow> (imm \<Rightarrow> string) \<Rightarrow> updateFn \<Rightarrow> editor \<Rightarrow> error + editor" where
  "addToHistory canon gen updateFn st =
     (case history st of
        [] \<Rightarrow> Inl TypeError
      | h # _ \<Rightarrow>
          bnd (prepare canon h)
            (\<lambda>s.
          bnd (updateFn (ast s) (selected s))
            (\<lambda>r.
          let newState = merge s r;
              isASTPristine = (ast s = ast newState)
          in
          bnd (if truthy (ast newState) \<and> \<not> isASTPristine
               then bnd (toJS (ast newState))
                      (\<lambda>js. Inr (st\<lparr>changes := changes st @ [gen js],
                                     generated := generated st @ [js]\<rparr>))
               else Inr st)
            (\<lambda>st1.
          let st2 = st1\<lparr>contextValue := newState\<rparr>
          in Inr (if selected s = selected newState \<and> isASTPristine then st2
                  else st2\<lparr>future := [],
                           history := take MAX_HISTORY_LENGTH (newState # history st)\<rparr>)))))"

subsection \<open>\<^verbatim>\<open>undo\<close> and \<^verbatim>\<open>redo\<close>\<close>

text \<open>
  The history of a component is never empty (\<open>undo_history_nonempty\<close>,
  \<open>redo_history_nonempty\<close> and \<open>addToHistory_history\<close> below), so
  \<^verbatim>\<open>history.first()\<close> is an entry; on an empty history the model leaves the state.
\<close>

definition undo :: "editor \<Rightarrow> editor" where
  "undo st =
     (case history st of
        [] \<Rightarrow> st
      | h # _ \<Rightarrow>
          let newHistory = (if length (history st) > 1 then tl (history st) else history st)
          in st\<lparr>contextValue := hd newHistory,
                future := h # future st,
                history := newHistory\<rparr>)"

definition redo :: "editor \<Rightarrow> editor" where
  "redo st =
     (case history st of
        [] \<Rightarrow> st
      | _ # _ \<Rightarrow>
          let newHistory = (case future st of [] \<Rightarrow> history st | f # _ \<Rightarrow> f # history st)
          in st\<lparr>contextValue := hd newHistory,
                future := tl (future st),
                history := newHistory\<rparr>)"

subsection \<open>Reading the selection\<close>

definition getSelectedNode :: "editor \<Rightarrow> error + imm" where
  "getSelectedNode st =
     (case history st of
        [] \<Rightarrow> Inl TypeError
      | h # _ \<Rightarrow>
          bnd (m_getIn (ast h) (selected h))
            (\<lambda>nd. if truthy nd then toJS nd else Inr nd))"

definition getClosestCollectionPath :: "imm \<Rightarrow> path \<Rightarrow> error + path" where
  "getClosestCollectionPath tree sel =
     bnd (m_getIn tree sel)
       (\<lambda>nd.
     bnd (toJS nd)
       (\<lambda>selectedNode.
     if isObjectExpression plain_read selectedNode then Inr (sel @ [Str ''properties''])
     else if isArrayExpression plain_read selectedNode then Inr (sel @ [Str ''elements''])
     else
       let index = findLastIndex (\<lambda>key. key = Str ''elements'' \<or> key = Str ''properties'') sel
       in Inr (take (nat (index + 1)) sel)))"

subsection \<open>Method calls inside the updaters\<close>

text \<open>
  \<^verbatim>\<open>list.insert(i, x)\<close> exists on a List only; \<^verbatim>\<open>collection.delete(i)\<close> on a List and
  on a Map; \<^verbatim>\<open>x.size\<close> is a property of a collection, \<^verbatim>\<open>undefined\<close> on other
  values, and an error on \<^verbatim>\<open>undefined\<close> and \<^verbatim>\<open>null\<close>.
\<close>

fun m_insert :: "imm \<Rightarrow> prim \<Rightarrow> imm \<Rightarrow> error + imm option" where
  "m_insert (IList xs) k v = Inr (Some (IList (list_insert xs k v)))"
| "m_insert _ k v = Inl TypeError"

definition m_delete :: "imm \<Rightarrow> prim \<Rightarrow> error + imm option" where
  "m_delete c k = (if is_coll c then Inr (Some (coll_remove c k)) else Inl TypeError)"

fun size_of :: "imm \<Rightarrow> error + prim" where
  "size_of (IList xs) = Inr (Num (int (length xs)))"
| "size_of (IMap m) = Inr (Num (int (fcard (fmdom m))))"
| "size_of (P Undefined) = Inl TypeError"
| "size_of (P Null) = Inl TypeError"
| "size_of (P p) = Inr Undefined"

subsection \<open>\<^verbatim>\<open>insert\<close>\<close>

definition insert_fn :: "imm \<Rightarrow> updateFn" where
  "insert_fn nd tree sel =
     (let immutableNode = fromJS nd in
      bnd (getClosestCollectionPath tree
             (if path_last sel = Str ''end'' then drop_last 3 sel else sel))
        (\<lambda>collectionPath.
      let itemIndex =
            (if path_last sel = Str ''end'' then Num (int (length collectionPath))
             else or_zero (plus_one (path_get sel (length collectionPath))))
      in
      bnd (m_getIn tree (butlast collectionPath))
        (\<lambda>c.
      bnd (toJS c)
        (\<lambda>collectionNode.
      let isArray = isArrayExpression plain_read collectionNode;
          isObject = isObjectExpression plain_read collectionNode
      in
      if \<not> isArray \<and> \<not> isObject then Inr None
      else
        bnd (m_updateIn tree collectionPath
               (\<lambda>list. m_insert list itemIndex
                  (if isArray then immutableNode
                   else fromJS (objectProperty (stringLiteral []) nd))))
          (\<lambda>newAST.
        let newSelected = collectionPath @ [itemIndex];
            newSelected = (if \<not> isArray then newSelected @ [Str ''key''] else newSelected)
        in Inr (Some \<lparr>d_ast = Some newAST, d_selected = Some newSelected\<rparr>))))))"

definition insert_node :: "(imm \<Rightarrow> imm) \<Rightarrow> (imm \<Rightarrow> string) \<Rightarrow> imm \<Rightarrow> editor \<Rightarrow> error + editor" where
  "insert_node canon gen nd = addToHistory canon gen (insert_fn nd)"

subsection \<open>\<^verbatim>\<open>changeDeclarationKind\<close>\<close>

text \<open>Lines 254-258: the update function hands back a tree only.\<close>

definition changeDeclarationKind_fn :: "string \<Rightarrow> updateFn" where
  "changeDeclarationKind_fn kind tree sel =
     bnd (m_updateIn tree (sel @ [Str ''kind'']) (\<lambda>_. Inr (Some (P (Str kind)))))
       (\<lambda>newAST. Inr (Some \<lparr>d_ast = Some newAST, d_selected = None\<rparr>))"

definition changeDeclarationKind ::
  "(imm \<Rightarrow> imm) \<Rightarrow> (imm \<Rightarrow> string) \<Rightarrow> string \<Rightarrow> editor \<Rightarrow> error + editor" where
  "changeDeclarationKind canon gen kind = addToHistory canon gen (changeDeclarationKind_fn kind)"

subsection \<open>\<^verbatim>\<open>deleteSelected\<close>\<close>

datatype direction = UP | DOWN | LEFT | RIGHT

text \<open>
  \<^verbatim>\<open>navigate\<close> is imported from \<^verbatim>\<open>../navigate\<close>, which is not part of the source at
  hand; it is a parameter.
\<close>

type_synonym navigate = "direction \<Rightarrow> imm \<Rightarrow> path \<Rightarrow> error + path"

fun is_number :: "prim \<Rightarrow> bool" where
  "is_number (Num i) = True"
| "is_number NaN = True"
| "is_number _ = False"

definition deleteSelected_fn :: "navigate \<Rightarrow> updateFn" where
  "deleteSelected_fn nav tree sel =
     bnd (m_deleteIn tree (take (nat (1 + findLastIndex is_number sel)) sel))
       (\<lambda>newAST.
     let isASTDelete = (sel = [] \<or> (length sel = 2 \<and> path_last sel = Str ''end''))
     in
     bnd (if isASTDelete \<or> path_last sel = Str ''end'' then Inr []
          else bnd (nav UP tree sel) (\<lambda>up. nav DOWN newAST up))
       (\<lambda>newSelected.
     Inr (Some \<lparr>d_ast = Some (if isASTDelete then fromJS nullLiteral else newAST),
                d_selected = Some newSelected\<rparr>)))"

definition deleteSelected :: "(imm \<Rightarrow> imm) \<Rightarrow> (imm \<Rightarrow> string) \<Rightarrow> navigate \<Rightarrow> editor \<Rightarrow> error + editor" where
  "deleteSelected canon gen nav = addToHistory canon gen (deleteSelected_fn nav)"

subsection \<open>\<^verbatim>\<open>moveSelected\<close>\<close>

text \<open>
  \<^verbatim>\<open>moveSelected\<close> applies the tests of babel-types to \<^verbatim>\<open>item\<close>, \<^verbatim>\<open>targetItem\<close>,
  \<^verbatim>\<open>targetItem.value\<close> and \<^verbatim>\<open>ast.getIn(parentCollectionPath.butLast())\<close> as they come
  out of the tree, without the \<^verbatim>\<open>toJS()\<close> that \<^verbatim>\<open>getClosestCollectionPath\<close>,
  \<^verbatim>\<open>addToHistory\<close>, \<^verbatim>\<open>insert\<close> and \<^verbatim>\<open>getSelectedNode\<close> put before the same tests.
  How a value of the tree answers the reads \<^verbatim>\<open>.type\<close> and \<^verbatim>\<open>.value\<close> is the
  parameter \<open>rd\<close>. For the Maps that \<^verbatim>\<open>Immutable.fromJS\<close> builds (lines 155, 262, 283,
  329) it is \<open>immutable_read\<close>.
\<close>

fun num_add :: "prim \<Rightarrow> int \<Rightarrow> prim" where
  "num_add (Num i) d = Num (i + d)"
| "num_add _ d = NaN"

fun num_neg :: "prim \<Rightarrow> bool" where
  "num_neg (Num i) = (i < 0)"
| "num_neg _ = False"

definition parseInt_plus :: "prim \<Rightarrow> int \<Rightarrow> prim" where
  "parseInt_plus x d = (case parseInt x of None \<Rightarrow> NaN | Some i \<Rightarrow> Num (i + d))"

definition moveSelected_fn :: "reader \<Rightarrow> direction \<Rightarrow> updateFn" where
  "moveSelected_fn rd dir tree sel =
     (let isMoveUp = (dir = UP) in
      bnd (getClosestCollectionPath tree sel)
        (\<lambda>collectionPath.
      let itemIndex =
            (if path_last sel = Str ''end'' then Num (int (length collectionPath))
             else or_zero (path_get sel (length collectionPath)));
          itemPath = collectionPath @ [itemIndex]
      in
      bnd (m_getIn tree itemPath)
        (\<lambda>item.
      let isItemObjectProperty = isObjectProperty rd item;
          newItemIndex = parseInt_plus itemIndex (if isMoveUp then - 1 else 1);
          newItemPath = collectionPath @ [newItemIndex]
      in
      bnd (m_getIn tree newItemPath)
        (\<lambda>targetItem.
      if isItemObjectProperty \<and> isObjectProperty rd targetItem
         \<and> isObjectExpression rd (rd targetItem ''value'')
      then
        let targetObjectPath = newItemPath @ [Str ''value'', Str ''properties''] in
        bnd (if isMoveUp then bnd (m_getIn tree targetObjectPath) size_of else Inr (Num 0))
          (\<lambda>targetIndex.
        bnd (m_updateIn tree targetObjectPath
               (\<lambda>collection. m_insert collection targetIndex item))
          (\<lambda>tree1.
        bnd (m_updateIn tree1 collectionPath (\<lambda>collection. m_delete collection itemIndex))
          (\<lambda>tree2.
        Inr (Some \<lparr>d_ast = Some tree2,
                   d_selected = Some
                     (collectionPath
                        @ [num_add newItemIndex (if isMoveUp then 0 else - 1),
                           Str ''value'', Str ''properties'', targetIndex]
                        @ drop (length collectionPath + 1) sel)\<rparr>))))
      else if num_neg newItemIndex \<or> \<not> truthy targetItem
      then
        let collectionIndexPath = drop_last 3 newItemPath in
        bnd (getClosestCollectionPath tree collectionIndexPath)
          (\<lambda>parentCollectionPath.
        if \<not> isItemObjectProperty
           \<or> \<not> isObjectExpression rd (getIn tree (butlast parentCollectionPath))
        then Inr None
        else
          let collectionIndex =
                (if path_last collectionIndexPath = Str ''end''
                 then Num (int (length parentCollectionPath))
                 else or_zero (path_get sel (length parentCollectionPath)));
              newItemIndex' = parseInt_plus collectionIndex (if isMoveUp then 0 else 1)
          in
          bnd (m_updateIn tree collectionPath (\<lambda>collection. m_delete collection itemIndex))
            (\<lambda>tree1.
          bnd (m_updateIn tree1 parentCollectionPath
                 (\<lambda>collection. m_insert collection newItemIndex' item))
            (\<lambda>tree2.
          Inr (Some \<lparr>d_ast = Some tree2,
                     d_selected = Some
                       (parentCollectionPath @ [newItemIndex']
                          @ drop (length itemPath) sel)\<rparr>))))
      else
        bnd (m_updateIn tree itemPath (\<lambda>_. Inr (Some targetItem)))
          (\<lambda>tree1.
        bnd (m_updateIn tree1 newItemPath (\<lambda>_. Inr (Some item)))
          (\<lambda>tree2.
        Inr (Some \<lparr>d_ast = Some tree2,
                   d_selected = Some (path_set sel (length collectionPath) newItemIndex)\<rparr>)))))))"

definition moveSelected ::
    "(imm \<Rightarrow> imm) \<Rightarrow> (imm \<Rightarrow> string) \<Rightarrow> reader \<Rightarrow> direction \<Rightarrow> editor \<Rightarrow> error + editor" where
  "moveSelected canon gen rd dir = addToHistory canon gen (moveSelected_fn rd dir)"

subsection \<open>\<^verbatim>\<open>handleCopy\<close> and \<^verbatim>\<open>handleCut\<close>\<close>

text \<open>
  Of the clipboard event, the text set under \<^verbatim>\<open>'text/plain'\<close> and whether
  \<^verbatim>\<open>preventDefault\<close> was called.
\<close>

record clip_event =
  clipboard :: "string option"
  defaultPrevented :: bool

definition handleCopy :: "(imm \<Rightarrow> string) \<Rightarrow> editor \<times> clip_event \<Rightarrow> error + editor \<times> clip_event" where
  "handleCopy gen se =
     (case se of (st, ev) \<Rightarrow>
      bnd (getSelectedNode st)
        (\<lambda>nd.
      if isEditable nd then Inr (st, ev)
      else
        (case history st of
           [] \<Rightarrow> Inl TypeError
         | h # _ \<Rightarrow>
             let sel = (if path_last (selected h) = Str ''end''
                        then drop_last 2 (selected h) else selected h)
             in
             bnd (m_getIn (ast h) sel)
               (\<lambda>v.
             bnd (toJS v)
               (\<lambda>js.
             Inr (st\<lparr>generated := generated st @ [js]\<rparr>,
                  ev\<lparr>clipboard := Some (gen js), defaultPrevented := True\<rparr>))))))"

definition handleCut ::
    "(imm \<Rightarrow> imm) \<Rightarrow> (imm \<Rightarrow> string) \<Rightarrow> navigate \<Rightarrow> editor \<times> clip_event \<Rightarrow> error + editor \<times> clip_event" where
  "handleCut canon gen nav se =
     (case se of (st, ev) \<Rightarrow>
      bnd (getSelectedNode st)
        (\<lambda>nd.
      if isEditable nd then Inr (st, ev)
      else
        bnd (handleCopy gen (st, ev))
          (\<lambda>se1.
        bnd (deleteSelected canon gen nav (fst se1))
          (\<lambda>st2. Inr (st2, snd se1)))))"

subsection \<open>\<^verbatim>\<open>reset\<close>\<close>

text \<open>Lines 620-625, for the tree \<^verbatim>\<open>parse(props.defaultValue)\<close>.\<close>

definition reset_fn :: "imm \<Rightarrow> updateFn" where
  "reset_fn tree0 tree sel = Inr (Some \<lparr>d_ast = Some tree0, d_selected = Some []\<rparr>)"

definition reset :: "(imm \<Rightarrow> imm) \<Rightarrow> (imm \<Rightarrow> string) \<Rightarrow> imm \<Rightarrow> editor \<Rightarrow> error + editor" where
  "reset canon gen tree0 = addToHistory canon gen (reset_fn tree0)"

text \<open>
  An update function that hands back the tree and the selection it was given, as
  \<^verbatim>\<open>changeSelected\<close> does when the selection does not move.
\<close>

definition same_fn :: updateFn where
  "same_fn tree sel = Inr (Some \<lparr>d_ast = Some tree, d_selected = Some sel\<rparr>)"

section \<open>Specification functions\<close>

text \<open>
  \<open>replaceIn v p x\<close> is \<open>v\<close> with the value at the path \<open>p\<close> replaced by \<open>x\<close>, for a path
  that resolves in \<open>v\<close>; it is what \<^verbatim>\<open>updateIn\<close> returns there (\<open>updateIn_resolved\<close>).
\<close>

fun replaceIn :: "imm \<Rightarrow> path \<Rightarrow> imm \<Rightarrow> imm" where
  "replaceIn v [] x = x"
| "replaceIn v (k # ks) x =
     (case coll_get v k of None \<Rightarrow> v | Some w \<Rightarrow> coll_set v k (replaceIn w ks x))"

section \<open>Documents used as examples\<close>

text \<open>
  \<^verbatim>\<open>SELECTED_PREFIX\<close> addresses the body of the program of a file; the expressions of
  the document are the entries of that body.
\<close>

definition document :: "imm list \<Rightarrow> imm" where
  "document body = node ''File'' [(''program'', node ''Program'' [(''body'', IList body)])]"

definition objectExpression :: "imm list \<Rightarrow> imm" where
  "objectExpression props = node ''ObjectExpression'' [(''properties'', IList props)]"

definition arrayExpression :: "imm list \<Rightarrow> imm" where
  "arrayExpression elems = node ''ArrayExpression'' [(''elements'', IList elems)]"

definition numericLiteral :: "prim \<Rightarrow> imm" where
  "numericLiteral v = node ''NumericLiteral'' [(''value'', P v)]"

text \<open>The property of an object with the key \<open>k\<close> and the value \<open>v\<close>.\<close>

definition property :: "string \<Rightarrow> imm \<Rightarrow> imm" where
  "property k v = objectProperty (stringLiteral k) v"

text \<open>A component with one entry in its history and one in its future.\<close>

definition with_future :: editor where
  "with_future =
     \<lparr>history = [\<lparr>ast = document [objectExpression []], selected = SELECTED_PREFIX\<rparr>],
      future = [\<lparr>ast = document [], selected = []\<rparr>],
      contextValue = \<lparr>ast = document [objectExpression []], selected = SELECTED_PREFIX\<rparr>,
      changes = [], generated = []\<rparr>"

text \<open>
  \<open>committed st ns st'\<close>: the component goes from \<open>st\<close> to \<open>st'\<close> by commits that each
  change the tree; \<open>ns\<close> are the states they produce, the latest first.
\<close>

inductive committed :: "(imm \<Rightarrow> imm) \<Rightarrow> (imm \<Rightarrow> string) \<Rightarrow> editor \<Rightarrow> editor_state list \<Rightarrow> editor \<Rightarrow> bool"
  for canon :: "imm \<Rightarrow> imm" and gen :: "imm \<Rightarrow> string" where
  committed_none: "committed canon gen st [] st"
| committed_step:
    "committed canon gen st ns st1 \<Longrightarrow> history st1 = h # hs \<Longrightarrow> prepare canon h = Inr s \<Longrightarrow>
     updateFn (ast s) (selected s) = Inr r \<Longrightarrow> ast (merge s r) \<noteq> ast s \<Longrightarrow>
     addToHistory canon gen updateFn st1 = Inr st2 \<Longrightarrow>
     committed canon gen st (merge s r # ns) st2"

text \<open>The same component after \<^verbatim>\<open>reset\<close> to the empty document.\<close>

definition after_reset :: editor where
  "after_reset =
     \<lparr>history = [\<lparr>ast = document [], selected = []\<rparr>,
                 \<lparr>ast = document [objectExpression []], selected = SELECTED_PREFIX\<rparr>],
      future = [],
      contextValue = \<lparr>ast = document [], selected = []\<rparr>,
      changes = [''text''], generated = [document []]\<rparr>"

text \<open>
  A component showing the array \<^verbatim>\<open>[1, 2]\<close> with a given selection, and a clipboard
  event before any handler has run.
\<close>

definition one_two :: imm where
  "one_two = arrayExpression [numericLiteral (Num 1), numericLiteral (Num 2)]"

definition showing :: "imm \<Rightarrow> path \<Rightarrow> editor" where
  "showing tree sel =
     \<lparr>history = [\<lparr>ast = tree, selected = sel\<rparr>], future = [],
      contextValue = \<lparr>ast = tree, selected = sel\<rparr>, changes = [], generated = []\<rparr>"

definition fresh_event :: clip_event where
  "fresh_event = \<lparr>clipboard = None, defaultPrevented = False\<rparr>"

text \<open>
  The object \<^verbatim>\<open>{a: {b: v}}\<close> as the one expression of a document, the path of its
  property \<^verbatim>\<open>b\<close>, and the same document without \<^verbatim>\<open>b\<close>.
\<close>

definition a_b :: "imm \<Rightarrow> imm" where
  "a_b v = document [objectExpression [property ''a'' (objectExpression [property ''b'' v])]]"

definition at_b :: path where
  "at_b = SELECTED_PREFIX
            @ [Num 0, Str ''properties'', Num 0, Str ''value'', Str ''properties'', Num 0]"

definition a_empty :: imm where
  "a_empty = document [objectExpression [property ''a'' (objectExpression [])]]"

text \<open>
  The end of the nested object of \<^verbatim>\<open>{a: {}}\<close> as a selection, and the document
  \<^verbatim>\<open>{a: {}, "": null}\<close>.
\<close>

definition at_inner_end :: path where
  "at_inner_end = SELECTED_PREFIX
     @ [Num 0, Str ''properties'', Num 0, Str ''value'', Str ''properties'', Str ''end'']"

definition a_empty_null :: imm where
  "a_empty_null =
     document [objectExpression [property ''a'' (objectExpression []), property [] nullLiteral]]"

text \<open>
  The objects \<^verbatim>\<open>{x: 1, y: {z: 2}}\<close>, \<^verbatim>\<open>{y: {z: 2}, x: 1}\<close>, \<^verbatim>\<open>{y: {x: 1, z: 2}}\<close> and
  \<^verbatim>\<open>{y: {z: 2, x: 1}}\<close> as documents.
\<close>

definition x1 :: imm where
  "x1 = property ''x'' (numericLiteral (Num 1))"

definition z2 :: imm where
  "z2 = property ''z'' (numericLiteral (Num 2))"

definition x_y :: imm where
  "x_y = document [objectExpression [x1, property ''y'' (objectExpression [z2])]]"

definition y_x :: imm where
  "y_x = document [objectExpression [property ''y'' (objectExpression [z2]), x1]]"

definition y_xz :: imm where
  "y_xz = document [objectExpression [property ''y'' (objectExpression [x1, z2])]]"

definition y_zx :: imm where
  "y_zx = document [objectExpression [property ''y'' (objectExpression [z2, x1])]]"

text \<open>The path of the key of the property at position \<open>i\<close> of the outer object.\<close>

definition key_of :: "int \<Rightarrow> path" where
  "key_of i = SELECTED_PREFIX @ [Num 0, Str ''properties'', Num i, Str ''key'']"

text \<open>
  The value of a numeric literal as \<^verbatim>\<open>parseFloat(value).toString()\<close> writes it, for the
  number 7; other values are not used in the examples and are left as they are.
\<close>

definition seven :: "imm \<Rightarrow> imm" where
  "seven v = (if v = P (Num 7) then P (Str ''7'') else v)"

section \<open>Evaluation\<close>

lemma bnd_Inr [simp]: "bnd (Inr x) f = f x"
  by (simp add: bnd_def)

lemma bnd_Inl [simp]: "bnd (Inl e) f = Inl e"
  by (simp add: bnd_def)

lemma toJS_coll [simp]: "is_coll v \<Longrightarrow> toJS v = Inr v"
  by (simp add: toJS_def)

lemma is_coll_truthy: "is_coll v \<Longrightarrow> truthy v"
  by (cases v) auto

lemma getIn_differs: "getIn t p \<noteq> getIn u p \<Longrightarrow> t \<noteq> u"
  by auto

text \<open>
  Two Maps written as chains of \<open>fmupd\<close> are compared entry by entry, whatever the
  order of the entries.
\<close>

lemma fmupd_eq_iff:
  "fmupd k v m = n \<longleftrightarrow> fmlookup n k = Some v \<and> fmdrop k m = fmdrop k n"
proof
  assume "fmupd k v m = n"
  then show "fmlookup n k = Some v \<and> fmdrop k m = fmdrop k n"
    by (auto simp add: fmdrop_fmupd_same)
next
  assume a: "fmlookup n k = Some v \<and> fmdrop k m = fmdrop k n"
  show "fmupd k v m = n"
  proof (rule fmap_ext)
    fix x
    show "fmlookup (fmupd k v m) x = fmlookup n x"
    proof (cases "x = k")
      case True
      with a show ?thesis by simp
    next
      case False
      from a have "fmlookup (fmdrop k m) x = fmlookup (fmdrop k n) x" by simp
      with False show ?thesis by simp
    qed
  qed
qed

lemmas map_eq = fmupd_eq_iff fmdrop_fmupd

lemmas eval_simps =
  node_def document_def objectExpression_def arrayExpression_def numericLiteral_def
  property_def nullLiteral_def stringLiteral_def objectProperty_def fromJS_def
  getIn_def m_getIn_def m_updateIn_def updateIn_def m_delete_def babel_is_def
  path_last_def path_get_def drop_last_def path_set_def or_zero_def parseInt_plus_def
  list_get_def list_set_def list_insert_def list_delete_def SELECTED_PREFIX_def
  prepare_def merge_def fmlookup_of_list Let_def

lemmas move_simps =
  getClosestCollectionPath_def immutable_read_def eval_simps a_b_def at_b_def a_empty_def

section \<open>Paths that resolve\<close>

lemma list_get_set_same:
  "list_get xs k = Some u \<Longrightarrow> list_get (list_set xs k y) k = Some y"
  by (auto simp add: list_get_def list_set_def split: option.splits if_splits)

lemma coll_get_set_same:
  "coll_get c k = Some u \<Longrightarrow> coll_get (coll_set c k y) k = Some y"
  by (cases c) (auto simp add: list_get_set_same)

lemma coll_get_Some_is_coll: "coll_get v k = Some w \<Longrightarrow> is_coll v"
  by (cases v) auto

lemma lookupIn_append:
  "lookupIn v (p @ q) = (case lookupIn v p of None \<Rightarrow> None | Some w \<Rightarrow> lookupIn w q)"
  by (induction p arbitrary: v) (auto split: option.splits)

lemma getIn_resolved: "lookupIn v p = Some w \<Longrightarrow> getIn v p = w"
  by (simp add: getIn_def)

lemma lookupIn_replaceIn:
  "lookupIn v p = Some w \<Longrightarrow> lookupIn (replaceIn v p x) p = Some x"
  by (induction p arbitrary: v) (auto simp add: coll_get_set_same split: option.splits)

text \<open>
  \<^verbatim>\<open>updateIn\<close> along a path whose first part resolves: the update happens at the value
  found there, and the result is put back in its place.
\<close>

lemma updateInDeep_resolved:
  "lookupIn v p = Some w \<Longrightarrow> updateInDeep (Some w) q f = Inr (Some w') \<Longrightarrow>
   updateInDeep (Some v) (p @ q) f = Inr (Some (replaceIn v p w'))"
proof (induction p arbitrary: v)
  case Nil
  then show ?case by simp
next
  case (Cons k ks)
  from Cons.prems(1) obtain u where u: "coll_get v k = Some u" "lookupIn u ks = Some w"
    by (auto split: option.splits)
  from Cons.IH [OF u(2) Cons.prems(2)]
  have ih: "updateInDeep (Some u) (ks @ q) f = Inr (Some (replaceIn u ks w'))" .
  from u(1) have "is_coll v" by (rule coll_get_Some_is_coll)
  then show ?case using u ih by (cases v) simp_all
qed

lemma updateIn_resolved:
  assumes "lookupIn v p = Some w" "f w = Inr (Some w')"
  shows "updateIn v p f = Inr (replaceIn v p w')"
proof -
  from assms(2) have "updateInDeep (Some w) [] f = Inr (Some w')" by simp
  from updateInDeep_resolved [OF assms(1) this] show ?thesis by (simp add: updateIn_def)
qed

lemma babel_is_plain_Map: "babel_is ty plain_read v \<Longrightarrow> \<exists>m. v = IMap m"
  by (cases v) (auto simp add: babel_is_def)

section \<open>Commits\<close>

lemma addToHistory_unchanged:
  assumes "history st = h # hs" "prepare canon h = Inr s"
    "updateFn (ast s) (selected s) = Inr r"
    "ast (merge s r) = ast s" "selected (merge s r) = selected s"
  shows "addToHistory canon gen updateFn st = Inr (st\<lparr>contextValue := merge s r\<rparr>)"
  using assms by (simp add: addToHistory_def Let_def)

lemma addToHistory_selection:
  assumes "history st = h # hs" "prepare canon h = Inr s"
    "updateFn (ast s) (selected s) = Inr r"
    "ast (merge s r) = ast s" "selected (merge s r) \<noteq> selected s"
  shows "addToHistory canon gen updateFn st =
    Inr (st\<lparr>contextValue := merge s r, future := [],
            history := take MAX_HISTORY_LENGTH (merge s r # h # hs)\<rparr>)"
  using assms by (simp add: addToHistory_def Let_def)

lemma addToHistory_tree:
  assumes "history st = h # hs" "prepare canon h = Inr s"
    "updateFn (ast s) (selected s) = Inr r"
    "ast (merge s r) \<noteq> ast s" "is_coll (ast (merge s r))"
  shows "addToHistory canon gen updateFn st =
    Inr (st\<lparr>changes := changes st @ [gen (ast (merge s r))],
            generated := generated st @ [ast (merge s r)],
            contextValue := merge s r, future := [],
            history := take MAX_HISTORY_LENGTH (merge s r # h # hs)\<rparr>)"
proof -
  from assms(5) have "truthy (ast (merge s r))" by (rule is_coll_truthy)
  with assms show ?thesis by (simp add: addToHistory_def Let_def)
qed

lemma addToHistory_falsy_tree:
  assumes "history st = h # hs" "prepare canon h = Inr s"
    "updateFn (ast s) (selected s) = Inr r"
    "ast (merge s r) \<noteq> ast s" "\<not> truthy (ast (merge s r))"
  shows "addToHistory canon gen updateFn st =
    Inr (st\<lparr>contextValue := merge s r, future := [],
            history := take MAX_HISTORY_LENGTH (merge s r # h # hs)\<rparr>)"
  using assms by (simp add: addToHistory_def Let_def)

text \<open>
  The prepared state of the example documents: their selection resolves to a list, not
  to a numeric literal, and \<^verbatim>\<open>addToHistory\<close> hands tree and selection on as they are.
\<close>

lemma prepare_with_future:
  "prepare canon \<lparr>ast = document [objectExpression []], selected = SELECTED_PREFIX\<rparr>
     = Inr \<lparr>ast = document [objectExpression []], selected = SELECTED_PREFIX\<rparr>"
  by (simp add: eval_simps)

text \<open>
  C5. A commit whose update function hands back a tree and a selection equal to the
  ones it was called with (those of the head of the history, after lines 219-230)
  records nothing: the history and the future stay as they are, \<^verbatim>\<open>onChange\<close> and
  \<^verbatim>\<open>generate\<close> are not called.
\<close>

theorem commit_unchanged_records_nothing:
  assumes "history st = h # hs" "prepare canon h = Inr s"
    "updateFn (ast s) (selected s) = Inr r"
    "ast (merge s r) = ast s" "selected (merge s r) = selected s"
  shows "\<exists>st'. addToHistory canon gen updateFn st = Inr st'
           \<and> history st' = history st \<and> future st' = future st
           \<and> changes st' = changes st \<and> generated st' = generated st"
  using assms by (simp add: addToHistory_unchanged)

theorem commit_unchanged_records_nothing_witness:
  "\<exists>st'. addToHistory (\<lambda>v. v) (\<lambda>t. ''text'') same_fn with_future = Inr st'
     \<and> history st' = history with_future
     \<and> future st' = [\<lparr>ast = document [], selected = []\<rparr>]
     \<and> changes st' = [] \<and> generated st' = []"
  using commit_unchanged_records_nothing
    [of with_future "\<lparr>ast = document [objectExpression []], selected = SELECTED_PREFIX\<rparr>" "[]"
        "\<lambda>v. v" "\<lparr>ast = document [objectExpression []], selected = SELECTED_PREFIX\<rparr>"
        same_fn "Some \<lparr>d_ast = Some (document [objectExpression []]),
                       d_selected = Some SELECTED_PREFIX\<rparr>" "\<lambda>t. ''text''"]
  by (simp add: with_future_def prepare_with_future same_fn_def merge_def)

subsection \<open>A commit of the example component\<close>

lemma document_differs: "document [] \<noteq> document [objectExpression []]"
  by (rule getIn_differs [of _ "[Str ''program'', Str ''body'']"]) (simp add: eval_simps)

lemma reset_with_future:
  "addToHistory (\<lambda>v. v) (\<lambda>t. ''text'') (reset_fn (document [])) with_future = Inr after_reset"
proof -
  let ?h = "\<lparr>ast = document [objectExpression []], selected = SELECTED_PREFIX\<rparr>"
  let ?r = "Some \<lparr>d_ast = Some (document []), d_selected = Some []\<rparr>"
  have m: "merge ?h ?r = \<lparr>ast = document [], selected = []\<rparr>"
    by (simp add: merge_def)
  have "addToHistory (\<lambda>v. v) (\<lambda>t. ''text'') (reset_fn (document [])) with_future =
    Inr (with_future\<lparr>changes := changes with_future @ [(\<lambda>t. ''text'') (ast (merge ?h ?r))],
            generated := generated with_future @ [ast (merge ?h ?r)],
            contextValue := merge ?h ?r, future := [],
            history := take MAX_HISTORY_LENGTH (merge ?h ?r # ?h # [])\<rparr>)"
  proof (rule addToHistory_tree)
    show "history with_future = [?h]" by (simp add: with_future_def)
    show "prepare (\<lambda>v. v) ?h = Inr ?h" by (rule prepare_with_future)
    show "reset_fn (document []) (ast ?h) (selected ?h) = Inr ?r" by (simp add: reset_fn_def)
    show "ast (merge ?h ?r) \<noteq> ast ?h" using document_differs by (simp add: m)
    show "is_coll (ast (merge ?h ?r))" unfolding m by (simp add: document_def node_def)
  qed
  then show ?thesis
    by (simp add: m with_future_def after_reset_def MAX_HISTORY_LENGTH_def)
qed

section \<open>The start of a commit\<close>

lemma fmdrop_absent: "fmlookup m k = None \<Longrightarrow> fmdrop k m = m"
  by (rule fmap_ext) auto

lemma updateIn_value:
  assumes res: "lookupIn tree p = Some (IMap m)"
  shows "updateIn tree (p @ [k]) (\<lambda>v. Inr (Some (g v)))
      = Inr (replaceIn tree p
          (if fmlookup m k = None \<and> g (P Undefined) = P Undefined then IMap m
           else coll_set (IMap m) k (g (getIn (IMap m) [k]))))"
proof -
  have "updateInDeep (Some (IMap m)) [k] (\<lambda>v. Inr (Some (g v)))
      = Inr (Some (if fmlookup m k = None \<and> g (P Undefined) = P Undefined then IMap m
           else coll_set (IMap m) k (g (getIn (IMap m) [k]))))"
    by (cases "fmlookup m k") (auto simp add: getIn_def fmdrop_absent)
  from updateInDeep_resolved [OF res this] show ?thesis by (simp add: updateIn_def)
qed

lemma prepare_result:
  assumes coll: "is_coll (ast h)"
    and sel': "sel' = (if path_last (selected h) \<noteq> Str ''end''
                          \<and> \<not> truthy (getIn (ast h) (selected h))
                       then [] else selected h)"
    and nd: "nd = getIn (ast h) sel'"
    and node: "is_coll nd \<or> \<not> truthy nd"
    and t': "t' = (if isNumericLiteral plain_read nd
                   then replaceIn (ast h) sel'
                          (if coll_get nd (Str ''value'') = None \<and> canon (P Undefined) = P Undefined
                           then nd
                           else coll_set nd (Str ''value'') (canon (getIn nd [Str ''value''])))
                   else ast h)"
  shows "prepare canon h = Inr \<lparr>ast = t', selected = sel'\<rparr>"
proof -
  have s1: "(if path_last (selected h) \<noteq> Str ''end''
          then bnd (m_getIn (ast h) (selected h))
                 (\<lambda>v. Inr (if \<not> truthy v then [] else selected h))
          else Inr (selected h)) = Inr sel'"
    using coll sel' by (simp add: m_getIn_def)
  show ?thesis
  proof (cases "isNumericLiteral plain_read nd")
    case True
    then obtain m where m: "nd = IMap m" by (auto dest: babel_is_plain_Map)
    with nd have res: "lookupIn (ast h) sel' = Some (IMap m)"
      by (auto simp add: getIn_def split: option.splits)
    note upd = updateIn_value [OF res, where k = "Str ''value''" and g = canon]
    from nd m have g: "getIn (ast h) sel' = IMap m" by simp
    show ?thesis
      unfolding prepare_def s1 using coll g upd True m t'
      by (simp add: m_getIn_def m_updateIn_def)
  next
    case False
    from nd have g: "getIn (ast h) sel' = nd" by simp
    show ?thesis
      unfolding prepare_def s1 using coll g node False t'
      by (auto simp add: m_getIn_def toJS_def)
  qed
qed

text \<open>
  C9. At the start of a commit (lines 219-230), for the head \<open>h\<close> of the history, whose
  tree is a collection. \<open>sel'\<close> is the selection of \<open>h\<close>, replaced by the empty path when
  it does not end in \<^verbatim>\<open>'end'\<close> and does not resolve (\<^verbatim>\<open>getIn\<close> gives \<^verbatim>\<open>undefined\<close>, or
  any other falsy value); \<open>nd\<close> is what \<open>sel'\<close> resolves to, a node or nothing. \<open>t'\<close> is
  the tree of \<open>h\<close>, and when \<open>nd\<close> is a \<^verbatim>\<open>NumericLiteral\<close>, that tree with the \<^verbatim>\<open>value\<close>
  field of \<open>nd\<close> set to \<open>canon\<close> of the old one and nothing else changed (\<open>canon\<close> being
  \<^verbatim>\<open>value => parseFloat(value).toString()\<close>; a field that is absent stays absent when
  \<open>canon\<close> gives \<^verbatim>\<open>undefined\<close> for it). The update function is called with \<open>t'\<close> and
  \<open>sel'\<close>: whatever the function, the commit is decided by what it returns there. The
  state exposed afterwards is that result laid over \<open>t'\<close> and \<open>sel'\<close>; it is recorded
  unless it is equal to \<open>t'\<close> and \<open>sel'\<close>, and \<^verbatim>\<open>onChange\<close> is called when its tree
  differs from \<open>t'\<close>.
\<close>

theorem commit_prepares_selection_and_number:
  assumes hist: "history st = h # hs" and coll: "is_coll (ast h)"
    and sel': "sel' = (if path_last (selected h) \<noteq> Str ''end''
                          \<and> \<not> truthy (getIn (ast h) (selected h))
                       then [] else selected h)"
    and nd: "nd = getIn (ast h) sel'"
    and node: "is_coll nd \<or> \<not> truthy nd"
    and t': "t' = (if isNumericLiteral plain_read nd
                   then replaceIn (ast h) sel'
                          (if coll_get nd (Str ''value'') = None \<and> canon (P Undefined) = P Undefined
                           then nd
                           else coll_set nd (Str ''value'') (canon (getIn nd [Str ''value''])))
                   else ast h)"
    and r: "updateFn t' sel' = Inr r"
    and n: "n = merge \<lparr>ast = t', selected = sel'\<rparr> r"
    and ok: "ast n = t' \<or> \<not> truthy (ast n) \<or> is_coll (ast n)"
  shows "prepare canon h = Inr \<lparr>ast = t', selected = sel'\<rparr>
       \<and> (\<exists>st'. addToHistory canon gen updateFn st = Inr st'
           \<and> contextValue st' = n
           \<and> history st' = (if n = \<lparr>ast = t', selected = sel'\<rparr> then h # hs
                             else take MAX_HISTORY_LENGTH (n # h # hs))
           \<and> future st' = (if n = \<lparr>ast = t', selected = sel'\<rparr> then future st else [])
           \<and> changes st' = (if ast n = t' \<or> \<not> truthy (ast n) then changes st
                             else changes st @ [gen (ast n)]))"
proof -
  let ?s = "\<lparr>ast = t', selected = sel'\<rparr>"
  have p: "prepare canon h = Inr ?s"
    using coll sel' nd node t' by (rule prepare_result)
  have r': "updateFn (ast ?s) (selected ?s) = Inr r" using r by simp
  have eq: "n = ?s \<longleftrightarrow> ast n = t' \<and> selected n = sel'" by auto
  consider (same) "ast n = t'" "selected n = sel'"
    | (sel) "ast n = t'" "selected n \<noteq> sel'"
    | (falsy) "ast n \<noteq> t'" "\<not> truthy (ast n)"
    | (tree) "ast n \<noteq> t'" "is_coll (ast n)"
    using ok by blast
  then show ?thesis
  proof cases
    case same
    then have e: "n = ?s" by (simp add: eq)
    have "addToHistory canon gen updateFn st = Inr (st\<lparr>contextValue := n\<rparr>)"
      unfolding n
      by (rule addToHistory_unchanged [where updateFn = updateFn and gen = gen, OF hist p r'])
        (use same n in simp_all)
    then show ?thesis using p hist same e by simp
  next
    case sel
    then have e: "n \<noteq> ?s" by (simp add: eq)
    have "addToHistory canon gen updateFn st =
        Inr (st\<lparr>contextValue := n, future := [],
                history := take MAX_HISTORY_LENGTH (n # h # hs)\<rparr>)"
      unfolding n
      by (rule addToHistory_selection [where updateFn = updateFn and gen = gen, OF hist p r'])
        (use sel n in simp_all)
    then show ?thesis using p sel e by simp
  next
    case falsy
    then have e: "n \<noteq> ?s" by (simp add: eq)
    have "addToHistory canon gen updateFn st =
        Inr (st\<lparr>contextValue := n, future := [],
                history := take MAX_HISTORY_LENGTH (n # h # hs)\<rparr>)"
      unfolding n
      by (rule addToHistory_falsy_tree [where updateFn = updateFn and gen = gen, OF hist p r'])
        (use falsy n in simp_all)
    then show ?thesis using p falsy e by simp
  next
    case tree
    then have e: "n \<noteq> ?s" by (simp add: eq)
    from tree have tr: "truthy (ast n)" by (simp add: is_coll_truthy)
    have "addToHistory canon gen updateFn st =
        Inr (st\<lparr>changes := changes st @ [gen (ast n)], generated := generated st @ [ast n],
                contextValue := n, future := [],
                history := take MAX_HISTORY_LENGTH (n # h # hs)\<rparr>)"
      unfolding n
      by (rule addToHistory_tree [where updateFn = updateFn and gen = gen, OF hist p r'])
        (use tree n in simp_all)
    then show ?thesis using p tree tr e by simp
  qed
qed

theorem commit_prepares_selection_and_number_witness:
  "prepare seven
       \<lparr>ast = document [numericLiteral (Num 7)], selected = SELECTED_PREFIX @ [Num 3]\<rparr>
     = Inr \<lparr>ast = document [numericLiteral (Num 7)], selected = []\<rparr>
   \<and> prepare seven
       \<lparr>ast = document [numericLiteral (Num 7)], selected = SELECTED_PREFIX @ [Num 0]\<rparr>
     = Inr \<lparr>ast = document [numericLiteral (Str ''7'')], selected = SELECTED_PREFIX @ [Num 0]\<rparr>
   \<and> (\<exists>st'. changeDeclarationKind seven (\<lambda>t. ''text'') ''let''
            (showing (document [numericLiteral (Num 7)]) (SELECTED_PREFIX @ [Num 3])) = Inr st'
      \<and> contextValue st' =
           \<lparr>ast = coll_set (document [numericLiteral (Num 7)]) (Str ''kind'') (P (Str ''let'')),
            selected = []\<rparr>
      \<and> history st' =
           [\<lparr>ast = coll_set (document [numericLiteral (Num 7)]) (Str ''kind'') (P (Str ''let'')),
             selected = []\<rparr>,
            \<lparr>ast = document [numericLiteral (Num 7)], selected = SELECTED_PREFIX @ [Num 3]\<rparr>])
   \<and> (\<exists>st'. changeDeclarationKind seven (\<lambda>t. ''text'') ''let''
            (showing (document [numericLiteral (Num 7)]) (SELECTED_PREFIX @ [Num 0])) = Inr st'
      \<and> contextValue st' =
           \<lparr>ast = document [coll_set (numericLiteral (Str ''7'')) (Str ''kind'') (P (Str ''let''))],
            selected = SELECTED_PREFIX @ [Num 0]\<rparr>
      \<and> history st' =
           [\<lparr>ast = document [coll_set (numericLiteral (Str ''7'')) (Str ''kind'') (P (Str ''let''))],
             selected = SELECTED_PREFIX @ [Num 0]\<rparr>,
            \<lparr>ast = document [numericLiteral (Num 7)], selected = SELECTED_PREFIX @ [Num 0]\<rparr>])"
proof -
  let ?d = "document [numericLiteral (Num 7)]"
  let ?g = "\<lambda>t::imm. ''text''"
  let ?k = "changeDeclarationKind_fn ''let''"
  let ?n1 = "\<lparr>ast = coll_set ?d (Str ''kind'') (P (Str ''let'')), selected = []\<rparr>"
  let ?h1 = "\<lparr>ast = ?d, selected = SELECTED_PREFIX @ [Num 3]\<rparr>"
  let ?t2 = "document [numericLiteral (Str ''7'')]"
  let ?n2 = "\<lparr>ast = document [coll_set (numericLiteral (Str ''7'')) (Str ''kind'') (P (Str ''let''))],
              selected = SELECTED_PREFIX @ [Num 0]\<rparr>"
  let ?h2 = "\<lparr>ast = ?d, selected = SELECTED_PREFIX @ [Num 0]\<rparr>"
  have one: "prepare seven ?h1 = Inr \<lparr>ast = ?d, selected = []\<rparr>
      \<and> (\<exists>st'. addToHistory seven ?g ?k (showing ?d (SELECTED_PREFIX @ [Num 3])) = Inr st'
      \<and> contextValue st' = ?n1 \<and> history st' = [?n1, ?h1])"
  proof -
    have "prepare seven ?h1 = Inr \<lparr>ast = ?d, selected = []\<rparr>
        \<and> (\<exists>st'. addToHistory seven ?g ?k (showing ?d (SELECTED_PREFIX @ [Num 3])) = Inr st'
        \<and> contextValue st' = ?n1
        \<and> history st' = (if ?n1 = \<lparr>ast = ?d, selected = []\<rparr> then ?h1 # []
                          else take MAX_HISTORY_LENGTH (?n1 # ?h1 # []))
        \<and> future st' = (if ?n1 = \<lparr>ast = ?d, selected = []\<rparr>
                         then future (showing ?d (SELECTED_PREFIX @ [Num 3])) else [])
        \<and> changes st' = (if ast ?n1 = ?d \<or> \<not> truthy (ast ?n1)
                          then changes (showing ?d (SELECTED_PREFIX @ [Num 3]))
                          else changes (showing ?d (SELECTED_PREFIX @ [Num 3])) @ [?g (ast ?n1)]))"
      by (rule commit_prepares_selection_and_number
            [where h = ?h1 and nd = ?d
               and r = "Some \<lparr>d_ast = Some (coll_set ?d (Str ''kind'') (P (Str ''let''))),
                              d_selected = None\<rparr>"])
        (simp_all add: showing_def changeDeclarationKind_fn_def seven_def eval_simps map_eq)
    moreover have "?n1 \<noteq> \<lparr>ast = ?d, selected = []\<rparr>"
      by (simp add: eval_simps map_eq)
    ultimately show ?thesis by (auto simp add: MAX_HISTORY_LENGTH_def)
  qed
  have two: "prepare seven ?h2 = Inr \<lparr>ast = ?t2, selected = SELECTED_PREFIX @ [Num 0]\<rparr>
      \<and> (\<exists>st'. addToHistory seven ?g ?k (showing ?d (SELECTED_PREFIX @ [Num 0])) = Inr st'
      \<and> contextValue st' = ?n2 \<and> history st' = [?n2, ?h2])"
  proof -
    have "prepare seven ?h2 = Inr \<lparr>ast = ?t2, selected = SELECTED_PREFIX @ [Num 0]\<rparr>
        \<and> (\<exists>st'. addToHistory seven ?g ?k (showing ?d (SELECTED_PREFIX @ [Num 0])) = Inr st'
        \<and> contextValue st' = ?n2
        \<and> history st' = (if ?n2 = \<lparr>ast = ?t2, selected = SELECTED_PREFIX @ [Num 0]\<rparr> then ?h2 # []
                          else take MAX_HISTORY_LENGTH (?n2 # ?h2 # []))
        \<and> future st' = (if ?n2 = \<lparr>ast = ?t2, selected = SELECTED_PREFIX @ [Num 0]\<rparr>
                         then future (showing ?d (SELECTED_PREFIX @ [Num 0])) else [])
        \<and> changes st' = (if ast ?n2 = ?t2 \<or> \<not> truthy (ast ?n2)
                          then changes (showing ?d (SELECTED_PREFIX @ [Num 0]))
                          else changes (showing ?d (SELECTED_PREFIX @ [Num 0])) @ [?g (ast ?n2)]))"
      by (rule commit_prepares_selection_and_number
            [where h = ?h2 and nd = "numericLiteral (Num 7)"
               and r = "Some \<lparr>d_ast = Some (ast ?n2), d_selected = None\<rparr>"])
        (simp_all add: showing_def changeDeclarationKind_fn_def seven_def eval_simps map_eq)
    moreover have "?n2 \<noteq> \<lparr>ast = ?t2, selected = SELECTED_PREFIX @ [Num 0]\<rparr>"
      by (simp add: eval_simps map_eq)
    ultimately show ?thesis by (auto simp add: MAX_HISTORY_LENGTH_def)
  qed
  from one two show ?thesis unfolding changeDeclarationKind_def by blast
qed

section \<open>Undo and redo\<close>

lemma undo_single:
  "history st = [h] \<Longrightarrow>
   undo st = st\<lparr>contextValue := h, future := h # future st, history := [h]\<rparr>"
  by (simp add: undo_def Let_def)

lemma undo_many:
  "history st = h # g # hs \<Longrightarrow>
   undo st = st\<lparr>contextValue := g, future := h # future st, history := g # hs\<rparr>"
  by (simp add: undo_def Let_def)

lemma redo_empty:
  "history st = h # hs \<Longrightarrow> future st = [] \<Longrightarrow>
   redo st = st\<lparr>contextValue := h, future := [], history := h # hs\<rparr>"
  by (simp add: redo_def Let_def)

lemma redo_some:
  "history st = h # hs \<Longrightarrow> future st = f # fs \<Longrightarrow>
   redo st = st\<lparr>contextValue := f, future := fs, history := f # h # hs\<rparr>"
  by (simp add: redo_def Let_def)

text \<open>
  C1. \<^verbatim>\<open>undo\<close> on a history of one entry keeps the history, but it is not a no-op:
  \<^verbatim>\<open>future.unshift(history.first())\<close> (line 429) is outside the test
  \<^verbatim>\<open>history.size > 1\<close> (line 426), and the future gains a copy of the head. Here on
  the state the constructor builds, for any document.
\<close>

theorem undo_single_entry_grows_future:
  "history (undo (initial tree)) = history (initial tree) \<and>
   future (initial tree) = [] \<and>
   future (undo (initial tree)) = [\<lparr>ast = tree, selected = SELECTED_PREFIX\<rparr>]"
  by (simp add: undo_def initial_def Let_def)

lemma undo_history_nonempty: "history st \<noteq> [] \<Longrightarrow> history (undo st) \<noteq> []"
  by (cases "history st") (auto simp add: undo_def Let_def)

lemma redo_history_nonempty: "history st \<noteq> [] \<Longrightarrow> history (redo st) \<noteq> []"
  by (cases "history st") (auto simp add: redo_def Let_def split: list.splits)

lemma addToHistory_recorded:
  assumes "history st = h # hs" "prepare canon h = Inr s"
    "updateFn (ast s) (selected s) = Inr r" "ast (merge s r) \<noteq> ast s"
    "addToHistory canon gen updateFn st = Inr st'"
  shows "history st' = take MAX_HISTORY_LENGTH (merge s r # h # hs)"
    and "future st' = []" and "contextValue st' = merge s r"
    and "changes st' = (if truthy (ast (merge s r)) then changes st @ [gen (ast (merge s r))]
                        else changes st)"
    and "generated st' = (if truthy (ast (merge s r)) then generated st @ [ast (merge s r)]
                          else generated st)"
  using assms
  by (auto simp add: addToHistory_def Let_def toJS_def split: if_splits)

lemma addToHistory_history:
  assumes "addToHistory canon gen updateFn st = Inr st'"
  shows "history st' \<noteq> []"
    and "length (history st) \<le> MAX_HISTORY_LENGTH \<Longrightarrow> length (history st') \<le> MAX_HISTORY_LENGTH"
  using assms
  by (auto simp add: addToHistory_def Let_def toJS_def bnd_def MAX_HISTORY_LENGTH_def
      split: list.splits sum.splits if_splits)

lemma take_Cons_take: "take n (x # take n ys) = take n (x # ys)"
  by (cases n) (simp_all add: min_def)

text \<open>
  Commits alone keep the bound: after tree-changing commits the history is the states
  they produced, the latest first, then the older history, cut to 100 entries.
\<close>

lemma committed_history:
  "committed canon gen st ns st' \<Longrightarrow>
   history st' = take MAX_HISTORY_LENGTH (ns @ history st) \<or> (ns = [] \<and> st' = st)"
proof (induction rule: committed.induct)
  case (committed_none st)
  show ?case by simp
next
  case (committed_step st ns st1 h hs s updateFn r st2)
  have "history st2 = take MAX_HISTORY_LENGTH (merge s r # h # hs)"
    using committed_step(2-6) by (rule addToHistory_recorded(1))
  then have h2: "history st2 = take MAX_HISTORY_LENGTH (merge s r # history st1)"
    using committed_step(2) by simp
  from committed_step.IH show ?case
  proof
    assume "history st1 = take MAX_HISTORY_LENGTH (ns @ history st)"
    with h2 have "history st2 = take MAX_HISTORY_LENGTH (merge s r # ns @ history st)"
      by (simp only: take_Cons_take)
    then show ?thesis by simp
  next
    assume "ns = [] \<and> st1 = st"
    with h2 show ?thesis by simp
  qed
qed

lemma committed_more_than_100:
  assumes "committed canon gen st ns st'" "MAX_HISTORY_LENGTH < length ns"
  shows "history st' = take MAX_HISTORY_LENGTH ns" "length (history st') = MAX_HISTORY_LENGTH"
  using committed_history [OF assms(1)] assms(2) by auto

section \<open>Undo and redo, repeated\<close>

lemma undo_pow_length:
  "history st \<noteq> [] \<Longrightarrow>
   length (history ((undo ^^ k) st)) = max 1 (length (history st) - k) \<and>
   length (future ((undo ^^ k) st)) = length (future st) + k \<and>
   history ((undo ^^ k) st) \<noteq> []"
proof (induction k)
  case 0
  then show ?case by (cases "history st") auto
next
  case (Suc k)
  let ?s = "(undo ^^ k) st"
  from Suc have ih: "length (history ?s) = max 1 (length (history st) - k)"
    "length (future ?s) = length (future st) + k" "history ?s \<noteq> []" by auto
  show ?case
  proof (cases "history ?s")
    case Nil
    with ih show ?thesis by simp
  next
    case outer: (Cons h hs)
    show ?thesis
    proof (cases hs)
      case Nil
      with outer ih show ?thesis by (simp add: undo_single)
    next
      case (Cons g gs)
      with outer ih show ?thesis by (auto simp add: undo_many)
    qed
  qed
qed

lemma redo_pow_length:
  "history st \<noteq> [] \<Longrightarrow> k \<le> length (future st) \<Longrightarrow>
   length (history ((redo ^^ k) st)) = length (history st) + k \<and>
   length (future ((redo ^^ k) st)) = length (future st) - k \<and>
   history ((redo ^^ k) st) \<noteq> []"
proof (induction k)
  case 0
  then show ?case by simp
next
  case (Suc k)
  let ?s = "(redo ^^ k) st"
  from Suc have ih: "length (history ?s) = length (history st) + k"
    "length (future ?s) = length (future st) - k" "history ?s \<noteq> []" by auto
  from ih(3) obtain h hs where h: "history ?s = h # hs" by (cases "history ?s") auto
  from ih(2) Suc.prems obtain f fs where f: "future ?s = f # fs" by (cases "future ?s") auto
  from h f ih show ?case by (simp add: redo_some)
qed

text \<open>
  C4. The history is never empty (\<open>undo_history_nonempty\<close>, \<open>redo_history_nonempty\<close>,
  \<open>addToHistory_history\<close>) and commits keep it within 100 entries
  (\<open>addToHistory_history\<close>, \<open>committed_more_than_100\<close>). Undo and redo do not: every
  \<^verbatim>\<open>undo\<close> on a history of one entry adds a copy of the head to the future (C1), and
  \<^verbatim>\<open>redo\<close> moves each of them onto the history, which it does not cut (line 439). From
  the state the constructor builds, 100 undos and 100 redos give a history of 101
  entries.
\<close>

theorem undo_redo_exceeds_bound:
  "length (history ((redo ^^ 100) ((undo ^^ 100) (initial tree)))) = MAX_HISTORY_LENGTH + 1"
proof -
  have i: "history (initial tree) \<noteq> []" "length (history (initial tree)) = 1"
    "future (initial tree) = []"
    by (simp_all add: initial_def)
  from undo_pow_length [OF i(1), of 100] i
  have u: "length (history ((undo ^^ 100) (initial tree))) = 1"
    "length (future ((undo ^^ 100) (initial tree))) = 100"
    "history ((undo ^^ 100) (initial tree)) \<noteq> []"
    by simp_all
  from redo_pow_length [OF u(3), of 100] u show ?thesis
    by (simp add: MAX_HISTORY_LENGTH_def)
qed

text \<open>
  C6. After a commit that changed the tree, \<^verbatim>\<open>undo\<close> exposes the state that was the
  head before the commit, tree and selection, and \<^verbatim>\<open>redo\<close> right after it gives back
  the component as the commit left it.
\<close>

theorem undo_redo_after_commit:
  assumes "history st = h # hs" "prepare canon h = Inr s"
    "updateFn (ast s) (selected s) = Inr r" "ast (merge s r) \<noteq> ast s"
    "addToHistory canon gen updateFn st = Inr st'"
  shows "2 \<le> length (history st') \<and> hd (history st') = merge s r
       \<and> hd (history (undo st')) = h \<and> contextValue (undo st') = h
       \<and> future (undo st') = [merge s r]
       \<and> redo (undo st') = st'"
proof -
  have rec: "history st' = take MAX_HISTORY_LENGTH (merge s r # h # hs)"
    "future st' = []" "contextValue st' = merge s r"
    using assms by (rule addToHistory_recorded)+
  from rec(1) have hist: "history st' = merge s r # h # take 98 hs"
    by (simp add: MAX_HISTORY_LENGTH_def take_Cons')
  from undo_many [OF hist] rec(2)
  have u: "undo st' = st'\<lparr>contextValue := h, future := [merge s r], history := h # take 98 hs\<rparr>"
    by simp
  have "redo (undo st') = st'\<lparr>contextValue := merge s r, future := [],
      history := merge s r # h # take 98 hs\<rparr>"
    unfolding u by (simp add: redo_def Let_def)
  with hist rec(2,3) have "redo (undo st') = st'" by simp
  with hist u show ?thesis by simp
qed

theorem undo_redo_after_commit_witness:
  "2 \<le> length (history after_reset)
   \<and> hd (history after_reset) = \<lparr>ast = document [], selected = []\<rparr>
   \<and> hd (history (undo after_reset))
       = \<lparr>ast = document [objectExpression []], selected = SELECTED_PREFIX\<rparr>
   \<and> contextValue (undo after_reset)
       = \<lparr>ast = document [objectExpression []], selected = SELECTED_PREFIX\<rparr>
   \<and> future (undo after_reset) = [\<lparr>ast = document [], selected = []\<rparr>]
   \<and> redo (undo after_reset) = after_reset"
proof -
  let ?h = "\<lparr>ast = document [objectExpression []], selected = SELECTED_PREFIX\<rparr>"
  let ?r = "Some \<lparr>d_ast = Some (document []), d_selected = Some []\<rparr>"
  have m: "merge ?h ?r = \<lparr>ast = document [], selected = []\<rparr>"
    by (simp add: merge_def)
  have "2 \<le> length (history after_reset) \<and> hd (history after_reset) = merge ?h ?r
       \<and> hd (history (undo after_reset)) = ?h \<and> contextValue (undo after_reset) = ?h
       \<and> future (undo after_reset) = [merge ?h ?r]
       \<and> redo (undo after_reset) = after_reset"
  proof (rule undo_redo_after_commit)
    show "history with_future = [?h]" by (simp add: with_future_def)
    show "prepare (\<lambda>v. v) ?h = Inr ?h" by (rule prepare_with_future)
    show "reset_fn (document []) (ast ?h) (selected ?h) = Inr ?r" by (simp add: reset_fn_def)
    show "ast (merge ?h ?r) \<noteq> ast ?h" using document_differs by (simp add: m)
    show "addToHistory (\<lambda>v. v) (\<lambda>t. ''text'') (reset_fn (document [])) with_future = Inr after_reset"
      by (rule reset_with_future)
  qed
  then show ?thesis by (simp only: m)
qed

text \<open>
  C10. \<^verbatim>\<open>undo\<close> and \<^verbatim>\<open>redo\<close> call neither \<^verbatim>\<open>onChange\<close> nor \<^verbatim>\<open>generate\<close>. A commit
  calls each at most once, and only when the tree it ends with differs from the tree
  its update function was called with.
\<close>

theorem undo_redo_silent:
  "changes (undo st) = changes st \<and> generated (undo st) = generated st
   \<and> changes (redo st) = changes st \<and> generated (redo st) = generated st
   \<and> (history st = h # hs \<longrightarrow> prepare canon h = Inr s \<longrightarrow>
      updateFn (ast s) (selected s) = Inr r \<longrightarrow>
      addToHistory canon gen updateFn st = Inr st' \<longrightarrow>
        (changes st' = changes st \<and> generated st' = generated st)
        \<or> (ast (merge s r) \<noteq> ast s
           \<and> changes st' = changes st @ [gen (ast (merge s r))]
           \<and> generated st' = generated st @ [ast (merge s r)]))"
proof -
  have "changes (undo st) = changes st \<and> generated (undo st) = generated st"
    by (cases "history st") (simp_all add: undo_def Let_def)
  moreover have "changes (redo st) = changes st \<and> generated (redo st) = generated st"
    by (cases "history st") (simp_all add: redo_def Let_def)
  moreover have "(changes st' = changes st \<and> generated st' = generated st)
        \<or> (ast (merge s r) \<noteq> ast s
           \<and> changes st' = changes st @ [gen (ast (merge s r))]
           \<and> generated st' = generated st @ [ast (merge s r)])"
    if "history st = h # hs" "prepare canon h = Inr s"
      "updateFn (ast s) (selected s) = Inr r" "addToHistory canon gen updateFn st = Inr st'"
  proof (cases "ast (merge s r) = ast s")
    case True
    show ?thesis
    proof (cases "selected (merge s r) = selected s")
      case True
      have "addToHistory canon gen updateFn st = Inr (st\<lparr>contextValue := merge s r\<rparr>)"
        using that(1-3) \<open>ast (merge s r) = ast s\<close> True by (rule addToHistory_unchanged)
      with that(4) show ?thesis by auto
    next
      case False
      have "addToHistory canon gen updateFn st =
          Inr (st\<lparr>contextValue := merge s r, future := [],
                  history := take MAX_HISTORY_LENGTH (merge s r # h # hs)\<rparr>)"
        using that(1-3) \<open>ast (merge s r) = ast s\<close> False by (rule addToHistory_selection)
      with that(4) show ?thesis by auto
    qed
  next
    case False
    have "changes st' = (if truthy (ast (merge s r)) then changes st @ [gen (ast (merge s r))]
                        else changes st)"
      using that(1-3) False that(4) by (rule addToHistory_recorded(4))
    moreover
    have "generated st' = (if truthy (ast (merge s r)) then generated st @ [ast (merge s r)]
                          else generated st)"
      using that(1-3) False that(4) by (rule addToHistory_recorded(5))
    ultimately show ?thesis using False by (cases "truthy (ast (merge s r))") simp_all
  qed
  ultimately show ?thesis by blast
qed

theorem undo_redo_silent_witness:
  "changes (undo after_reset) = [''text''] \<and> generated (undo after_reset) = [document []]
   \<and> changes (redo (undo after_reset)) = [''text'']
   \<and> generated (redo (undo after_reset)) = [document []]
   \<and> document [] \<noteq> document [objectExpression []]
   \<and> changes after_reset = changes with_future @ [''text'']
   \<and> generated after_reset = generated with_future @ [document []]
   \<and> ast (contextValue after_reset) = document []
   \<and> ast (contextValue (undo after_reset)) = document [objectExpression []]"
proof -
  let ?h = "\<lparr>ast = document [objectExpression []], selected = SELECTED_PREFIX\<rparr>"
  let ?r = "Some \<lparr>d_ast = Some (document []), d_selected = Some []\<rparr>"
  have m: "merge ?h ?r = \<lparr>ast = document [], selected = []\<rparr>"
    by (simp add: merge_def)
  have ne: "changes after_reset \<noteq> changes with_future"
    by (simp add: after_reset_def with_future_def)
  have a: "changes after_reset = [''text'']" "generated after_reset = [document []]"
    by (simp_all add: after_reset_def)
  from undo_redo_silent [of after_reset] a
  have u: "changes (undo after_reset) = [''text'']" "generated (undo after_reset) = [document []]"
    by simp_all
  from undo_redo_silent [of "undo after_reset"] u
  have r: "changes (redo (undo after_reset)) = [''text'']"
    "generated (redo (undo after_reset)) = [document []]"
    by simp_all
  from undo_redo_silent [of with_future ?h "[]" "\<lambda>v. v" ?h "reset_fn (document [])" ?r
      "\<lambda>t. ''text''" after_reset]
  have "(changes after_reset = changes with_future \<and> generated after_reset = generated with_future)
        \<or> (ast (merge ?h ?r) \<noteq> ast ?h
           \<and> changes after_reset = changes with_future @ [''text'']
           \<and> generated after_reset = generated with_future @ [ast (merge ?h ?r)])"
    using reset_with_future prepare_with_future
    by (simp add: with_future_def reset_fn_def)
  with ne have "ast (merge ?h ?r) \<noteq> ast ?h
           \<and> changes after_reset = changes with_future @ [''text'']
           \<and> generated after_reset = generated with_future @ [ast (merge ?h ?r)]"
    by blast
  moreover have "ast (contextValue after_reset) = document []"
    "ast (contextValue (undo after_reset)) = document [objectExpression []]"
    by (simp_all add: after_reset_def undo_def Let_def)
  ultimately show ?thesis using u r by (simp add: m)
qed

section \<open>Copy and cut\<close>

lemma lookupIn_is_coll: "lookupIn v p = Some w \<Longrightarrow> is_coll w \<Longrightarrow> is_coll v"
  by (cases p) (auto dest: coll_get_Some_is_coll split: option.splits)

lemma getSelectedNode_resolved:
  assumes "history st = h # hs" "lookupIn (ast h) (selected h) = Some nd" "is_coll nd"
  shows "getSelectedNode st = Inr nd"
proof -
  from assms(2,3) have "is_coll (ast h)" by (rule lookupIn_is_coll)
  with assms show ?thesis
    by (simp add: getSelectedNode_def m_getIn_def getIn_def is_coll_truthy)
qed

lemma getSelectedNode_is_coll:
  "history st = h # hs \<Longrightarrow> getSelectedNode st = Inr nd \<Longrightarrow> is_coll (ast h)"
  by (auto simp add: getSelectedNode_def m_getIn_def split: if_splits)

lemma handleCopy_editable:
  "getSelectedNode st = Inr nd \<Longrightarrow> isEditable nd \<Longrightarrow> handleCopy gen (st, ev) = Inr (st, ev)"
  by (simp add: handleCopy_def)

lemma handleCut_editable:
  "getSelectedNode st = Inr nd \<Longrightarrow> isEditable nd \<Longrightarrow> handleCut canon gen nav (st, ev) = Inr (st, ev)"
  by (simp add: handleCut_def)

lemma handleCopy_end:
  assumes "history st = h # hs" "path_last (selected h) = Str ''end''"
    "getSelectedNode st = Inr sn" "\<not> isEditable sn"
    "lookupIn (ast h) (drop_last 2 (selected h)) = Some nd" "is_coll nd"
  shows "handleCopy gen (st, ev) =
    Inr (st\<lparr>generated := generated st @ [nd]\<rparr>,
         ev\<lparr>clipboard := Some (gen nd), defaultPrevented := True\<rparr>)"
proof -
  from assms(1,3) have "is_coll (ast h)" by (rule getSelectedNode_is_coll)
  with assms show ?thesis
    by (simp add: handleCopy_def m_getIn_def getIn_def)
qed

text \<open>
  C8. When the selection ends in \<^verbatim>\<open>'end'\<close> (and so selects no editable node), the copy
  handler puts on the clipboard the generator's text for the node at the selection
  without its last two steps, and prevents the default. When the selection resolves
  to a \<^verbatim>\<open>StringLiteral\<close>, \<^verbatim>\<open>NumericLiteral\<close> or \<^verbatim>\<open>Identifier\<close>, copy and cut leave the
  component and the event as they are.
\<close>

theorem copy_at_end_and_on_editable:
  "(history st = h # hs \<and> path_last (selected h) = Str ''end''
      \<and> getSelectedNode st = Inr sn \<and> \<not> isEditable sn
      \<and> lookupIn (ast h) (drop_last 2 (selected h)) = Some nd \<and> is_coll nd
    \<longrightarrow> handleCopy gen (st, ev) =
          Inr (st\<lparr>generated := generated st @ [nd]\<rparr>,
               ev\<lparr>clipboard := Some (gen nd), defaultPrevented := True\<rparr>))
   \<and> (history st = h # hs \<and> lookupIn (ast h) (selected h) = Some leaf \<and> isEditable leaf
    \<longrightarrow> handleCopy gen (st, ev) = Inr (st, ev)
        \<and> handleCut canon gen nav (st, ev) = Inr (st, ev))"
proof -
  have "handleCopy gen (st, ev) = Inr (st, ev) \<and> handleCut canon gen nav (st, ev) = Inr (st, ev)"
    if "history st = h # hs" "lookupIn (ast h) (selected h) = Some leaf" "isEditable leaf"
  proof -
    from that(3) have "is_coll leaf"
      by (auto simp add: isEditable_def dest: babel_is_plain_Map)
    with that have "getSelectedNode st = Inr leaf" by (simp add: getSelectedNode_resolved)
    with that(3) show ?thesis by (simp add: handleCopy_editable handleCut_editable)
  qed
  then show ?thesis using handleCopy_end [of st h hs sn nd gen ev] by blast
qed

lemma one_two_at_end:
  "getSelectedNode (showing (document [one_two]) (SELECTED_PREFIX @ [Num 0, Str ''elements'', Str ''end'']))
     = Inr (P Undefined)"
  "lookupIn (document [one_two]) (drop_last 2 (SELECTED_PREFIX @ [Num 0, Str ''elements'', Str ''end'']))
     = Some one_two"
  "lookupIn (document [one_two]) (SELECTED_PREFIX @ [Num 0, Str ''elements'', Num 0])
     = Some (numericLiteral (Num 1))"
  by (simp_all add: showing_def getSelectedNode_def one_two_def uint32_index_def is_digit_def
      eval_simps)

theorem copy_at_end_and_on_editable_witness:
  "handleCopy (\<lambda>t. ''[1, 2]'')
      (showing (document [one_two]) (SELECTED_PREFIX @ [Num 0, Str ''elements'', Str ''end'']),
       fresh_event)
     = Inr ((showing (document [one_two]) (SELECTED_PREFIX @ [Num 0, Str ''elements'', Str ''end'']))
              \<lparr>generated := [one_two]\<rparr>,
            \<lparr>clipboard = Some ''[1, 2]'', defaultPrevented = True\<rparr>)
   \<and> handleCopy (\<lambda>t. ''[1, 2]'')
      (showing (document [one_two]) (SELECTED_PREFIX @ [Num 0, Str ''elements'', Num 0]), fresh_event)
     = Inr (showing (document [one_two]) (SELECTED_PREFIX @ [Num 0, Str ''elements'', Num 0]),
            fresh_event)
   \<and> handleCut (\<lambda>v. v) (\<lambda>t. ''[1, 2]'') (\<lambda>d t q. Inr q)
      (showing (document [one_two]) (SELECTED_PREFIX @ [Num 0, Str ''elements'', Num 0]), fresh_event)
     = Inr (showing (document [one_two]) (SELECTED_PREFIX @ [Num 0, Str ''elements'', Num 0]),
            fresh_event)"
proof -
  let ?e = "SELECTED_PREFIX @ [Num 0, Str ''elements'', Str ''end'']"
  let ?l = "SELECTED_PREFIX @ [Num 0, Str ''elements'', Num 0]"
  let ?g = "\<lambda>t::imm. ''[1, 2]''"
  have c: "is_coll one_two" "\<not> isEditable (P Undefined)" "isEditable (numericLiteral (Num 1))"
    by (simp_all add: one_two_def arrayExpression_def numericLiteral_def node_def isEditable_def
        babel_is_def fmlookup_of_list)
  have e: "path_last ?e = Str ''end''" by (simp add: path_last_def)
  from copy_at_end_and_on_editable
    [where st = "showing (document [one_two]) ?e" and h = "\<lparr>ast = document [one_two], selected = ?e\<rparr>"
       and hs = "[]" and sn = "P Undefined" and nd = one_two and gen = ?g and ev = fresh_event]
    one_two_at_end(1,2) c e
  have one: "handleCopy ?g (showing (document [one_two]) ?e, fresh_event)
     = Inr ((showing (document [one_two]) ?e)\<lparr>generated := [one_two]\<rparr>,
            \<lparr>clipboard = Some ''[1, 2]'', defaultPrevented = True\<rparr>)"
    by (simp add: showing_def fresh_event_def)
  from copy_at_end_and_on_editable
    [where st = "showing (document [one_two]) ?l" and h = "\<lparr>ast = document [one_two], selected = ?l\<rparr>"
       and hs = "[]" and leaf = "numericLiteral (Num 1)" and gen = ?g and ev = fresh_event
       and canon = "\<lambda>v. v" and nav = "\<lambda>d t q. Inr q"]
    one_two_at_end(3) c
  have two: "handleCopy ?g (showing (document [one_two]) ?l, fresh_event)
       = Inr (showing (document [one_two]) ?l, fresh_event)
     \<and> handleCut (\<lambda>v. v) ?g (\<lambda>d t q. Inr q) (showing (document [one_two]) ?l, fresh_event)
       = Inr (showing (document [one_two]) ?l, fresh_event)"
    by (simp add: showing_def)
  from one two show ?thesis by blast
qed

section \<open>Insert\<close>

lemma getClosestCollectionPath_prefix:
  assumes "getClosestCollectionPath tree sel = Inr cp" "length cp \<le> length sel"
  shows "cp = take (length cp) sel"
proof -
  from assms(1) have "cp = sel @ [Str ''properties''] \<or> cp = sel @ [Str ''elements'']
      \<or> (\<exists>n. cp = take n sel)"
    by (auto simp add: getClosestCollectionPath_def m_getIn_def toJS_def Let_def split: if_splits)
  with assms(2) obtain n where "cp = take n sel" by auto
  then show ?thesis by (simp add: min_def)
qed

lemma getClosestCollectionPath_resolves:
  assumes "getClosestCollectionPath tree sel = Inr cp"
  shows "\<exists>nd. lookupIn tree sel = Some nd"
  using assms
  by (auto simp add: getClosestCollectionPath_def m_getIn_def toJS_def getIn_def
      split: if_splits option.splits)

lemma getClosestCollectionPath_is_coll:
  "getClosestCollectionPath tree sel = Inr cp \<Longrightarrow> is_coll tree"
  by (auto simp add: getClosestCollectionPath_def m_getIn_def split: if_splits)

lemma is_coll_replaceIn:
  "lookupIn v p = Some w \<Longrightarrow> is_coll x \<Longrightarrow> is_coll (replaceIn v p x)"
proof (cases p)
  case Nil
  then show "is_coll x \<Longrightarrow> is_coll (replaceIn v p x)" by simp
next
  case (Cons k ks)
  assume "lookupIn v p = Some w"
  with Cons obtain u where u: "coll_get v k = Some u" by (auto split: option.splits)
  then have "is_coll v" by (rule coll_get_Some_is_coll)
  with Cons u show "is_coll (replaceIn v p x)" by (cases v) auto
qed

lemma length_list_insert: "length (list_insert xs k v) = Suc (length xs)"
  by (simp add: list_insert_def)

lemma list_get_insert:
  "0 \<le> i \<Longrightarrow> i \<le> int (length xs) \<Longrightarrow> list_get (list_insert xs (Num i) v) (Num i) = Some v"
  by (simp add: list_get_def list_insert_def nth_append min_def)

lemma insert_fn_collection:
  assumes cp: "getClosestCollectionPath tree
                 (if path_last sel = Str ''end'' then drop_last 3 sel else sel) = Inr cp"
    and idx: "idx = (if path_last sel = Str ''end'' then Num (int (length cp))
                     else or_zero (plus_one (path_get sel (length cp))))"
    and c: "lookupIn tree (butlast cp) = Some c"
    and xs: "lookupIn tree cp = Some (IList xs)"
    and ty: "isObjectExpression plain_read c \<or> isArrayExpression plain_read c"
    and x: "x = (if isArrayExpression plain_read c then nd else objectProperty (stringLiteral []) nd)"
  shows "insert_fn nd tree sel =
    Inr (Some \<lparr>d_ast = Some (replaceIn tree cp (IList (list_insert xs idx x))),
               d_selected = Some (if isArrayExpression plain_read c then cp @ [idx]
                                  else cp @ [idx, Str ''key''])\<rparr>)"
proof -
  from cp have coll: "is_coll tree" by (rule getClosestCollectionPath_is_coll)
  from ty have cc: "is_coll c" by (auto dest: babel_is_plain_Map)
  from c have g: "getIn tree (butlast cp) = c" by (rule getIn_resolved)
  have u: "updateIn tree cp (\<lambda>list. m_insert list idx x)
      = Inr (replaceIn tree cp (IList (list_insert xs idx x)))"
    using xs by (rule updateIn_resolved) simp
  show ?thesis
    unfolding insert_fn_def Let_def cp bnd_Inr idx [symmetric]
    using coll cc g u ty x
    by (auto simp add: m_getIn_def m_updateIn_def fromJS_def)
qed

text \<open>
  The index of lines 267-270 for a selection that is not at an end: when the step of the
  selection after the collection path is absent or a natural number, the index is a
  position of the list after the insertion.
\<close>

lemma insert_index_in_range:
  assumes cp: "getClosestCollectionPath tree sel = Inr cp"
    and xs: "lookupIn tree cp = Some (IList xs)"
    and step: "path_get sel (length cp) = Undefined
               \<or> (\<exists>n. path_get sel (length cp) = Num (int n))"
  shows "\<exists>i. or_zero (plus_one (path_get sel (length cp))) = Num i
           \<and> 0 \<le> i \<and> i \<le> int (length xs)"
  using step
proof
  assume "path_get sel (length cp) = Undefined"
  then show ?thesis by (simp add: or_zero_def)
next
  assume "\<exists>n. path_get sel (length cp) = Num (int n)"
  then obtain n where n: "path_get sel (length cp) = Num (int n)" by blast
  let ?rest = "drop (length cp + 1) sel"
  from n have lt: "length cp < length sel" and nth: "sel ! length cp = Num (int n)"
    by (auto simp add: path_get_def split: if_splits)
  from cp lt have "cp = take (length cp) sel"
    by (simp add: getClosestCollectionPath_prefix)
  with id_take_nth_drop [OF lt] nth have sel: "sel = cp @ Num (int n) # ?rest" by simp
  from cp obtain nd where "lookupIn tree sel = Some nd"
    by (auto dest: getClosestCollectionPath_resolves)
  with sel have "lookupIn tree (cp @ Num (int n) # ?rest) = Some nd" by simp
  with xs have "list_get xs (Num (int n)) \<noteq> None"
    by (auto simp add: lookupIn_append split: option.splits)
  then have "n < length xs" by (auto simp add: list_get_def split: if_splits)
  with n show ?thesis by (simp add: or_zero_def)
qed

lemma objectProperty_fields:
  "coll_get (objectProperty k v) (Str ''key'') = Some k"
  "coll_get (objectProperty k v) (Str ''value'') = Some v"
  "isObjectProperty plain_read (objectProperty k v)"
  by (simp_all add: objectProperty_def node_def fmlookup_of_list babel_is_def)

text \<open>
  \<^verbatim>\<open>insert(node)\<close> on a selection that does not end in \<^verbatim>\<open>'end'\<close>, whose collection
  path \<open>cp\<close> resolves to a list \<open>xs\<close> held by a node \<open>c\<close> that is an \<^verbatim>\<open>ObjectExpression\<close>
  or an \<^verbatim>\<open>ArrayExpression\<close>. The commit is recorded; its tree is the old one with \<open>xs\<close>
  replaced by \<^verbatim>\<open>xs.insert(idx, x)\<close>, where \<open>idx\<close> is the index after the selected one (0
  when there is none) and \<open>x\<close> is the node itself in an array, and in an object the
  property with the key \<^verbatim>\<open>stringLiteral('')\<close> and the node as value; the selection is
  \<open>cp\<close>, \<open>idx\<close> and, in an object, \<^verbatim>\<open>'key'\<close>. When \<open>idx\<close> is a position of the new list,
  that selection resolves to the key of the new property, and to the new element in an
  array; it is such a position when the step of the selection after \<open>cp\<close> is absent or a
  natural number.
\<close>

lemma insert_after_selection:
  assumes h: "history st = h # hs" and s: "prepare canon h = Inr s"
    and notend: "path_last (selected s) \<noteq> Str ''end''"
    and cp: "getClosestCollectionPath (ast s) (selected s) = Inr cp"
    and idx: "idx = or_zero (plus_one (path_get (selected s) (length cp)))"
    and c: "lookupIn (ast s) (butlast cp) = Some c"
    and xs: "lookupIn (ast s) cp = Some (IList xs)"
    and ty: "isObjectExpression plain_read c \<or> isArrayExpression plain_read c"
    and x: "x = (if isArrayExpression plain_read c then nd else objectProperty (stringLiteral []) nd)"
    and q: "q = (if isArrayExpression plain_read c then cp @ [idx] else cp @ [idx, Str ''key''])"
    and t: "t = replaceIn (ast s) cp (IList (list_insert xs idx x))"
  shows "(\<exists>st'. insert_node canon gen nd st = Inr st'
            \<and> history st' = take MAX_HISTORY_LENGTH (\<lparr>ast = t, selected = q\<rparr> # h # hs)
            \<and> contextValue st' = \<lparr>ast = t, selected = q\<rparr>
            \<and> changes st' = changes st @ [gen t])
       \<and> getIn t cp = IList (list_insert xs idx x)
       \<and> (idx = Num i \<and> 0 \<le> i \<and> i \<le> int (length xs) \<longrightarrow>
            getIn t (cp @ [idx]) = x
            \<and> getIn t q = (if isArrayExpression plain_read c then nd else stringLiteral [])
            \<and> (isObjectExpression plain_read c \<longrightarrow>
                 isObjectProperty plain_read (getIn t (cp @ [idx]))
                 \<and> getIn t (cp @ [idx, Str ''value'']) = nd))
       \<and> (path_get (selected s) (length cp) = Undefined
              \<or> (\<exists>n. path_get (selected s) (length cp) = Num (int n))
            \<longrightarrow> (\<exists>i. idx = Num i \<and> 0 \<le> i \<and> i \<le> int (length xs)))"
proof -
  let ?r = "Some \<lparr>d_ast = Some t, d_selected = Some q\<rparr>"
  have four: "\<exists>i. idx = Num i \<and> 0 \<le> i \<and> i \<le> int (length xs)"
    if st: "path_get (selected s) (length cp) = Undefined
               \<or> (\<exists>n. path_get (selected s) (length cp) = Num (int n))"
    using insert_index_in_range [OF cp xs st] idx by simp
  from cp notend have cp': "getClosestCollectionPath (ast s)
               (if path_last (selected s) = Str ''end'' then drop_last 3 (selected s)
                else selected s) = Inr cp" by simp
  from idx notend have idx': "idx = (if path_last (selected s) = Str ''end''
                     then Num (int (length cp))
                     else or_zero (plus_one (path_get (selected s) (length cp))))" by simp
  have fn: "insert_fn nd (ast s) (selected s) = Inr ?r"
    unfolding t q using cp' idx' c xs ty x by (rule insert_fn_collection)
  have m: "merge s ?r = \<lparr>ast = t, selected = q\<rparr>" by (simp add: merge_def)
  have lk: "lookupIn t cp = Some (IList (list_insert xs idx x))"
    unfolding t using xs by (rule lookupIn_replaceIn)
  then have g: "getIn t cp = IList (list_insert xs idx x)" by (rule getIn_resolved)
  from xs have "getIn (ast s) cp = IList xs" by (rule getIn_resolved)
  moreover have "list_insert xs idx x \<noteq> xs"
    using length_list_insert [of xs idx x] by auto
  ultimately have "getIn t cp \<noteq> getIn (ast s) cp" using g by simp
  then have ne: "ast (merge s ?r) \<noteq> ast s" unfolding m by auto
  have "is_coll t" unfolding t using xs by (rule is_coll_replaceIn) simp
  then have coll: "is_coll (ast (merge s ?r))" by (simp add: m)
  have "addToHistory canon gen (insert_fn nd) st =
    Inr (st\<lparr>changes := changes st @ [gen (ast (merge s ?r))],
            generated := generated st @ [ast (merge s ?r)],
            contextValue := merge s ?r, future := [],
            history := take MAX_HISTORY_LENGTH (merge s ?r # h # hs)\<rparr>)"
    using h s fn ne coll by (rule addToHistory_tree)
  then have one: "\<exists>st'. insert_node canon gen nd st = Inr st'
            \<and> history st' = take MAX_HISTORY_LENGTH (\<lparr>ast = t, selected = q\<rparr> # h # hs)
            \<and> contextValue st' = \<lparr>ast = t, selected = q\<rparr>
            \<and> changes st' = changes st @ [gen t]"
    by (simp add: insert_node_def m)
  have three: "getIn t (cp @ [idx]) = x
      \<and> getIn t q = (if isArrayExpression plain_read c then nd else stringLiteral [])
      \<and> (isObjectExpression plain_read c \<longrightarrow>
                 isObjectProperty plain_read (getIn t (cp @ [idx]))
                 \<and> getIn t (cp @ [idx, Str ''value'']) = nd)"
    if r: "idx = Num i" "0 \<le> i" "i \<le> int (length xs)"
  proof -
    from r have "list_get (list_insert xs idx x) idx = Some x" by (simp add: list_get_insert)
    with lk have lx: "lookupIn t (cp @ [idx]) = Some x" by (simp add: lookupIn_append)
    then have gx: "getIn t (cp @ [idx]) = x" by (rule getIn_resolved)
    show ?thesis
    proof (cases "isArrayExpression plain_read c")
      case True
      with gx q x show ?thesis by (simp add: babel_is_def)
    next
      case False
      with x have xp: "x = objectProperty (stringLiteral []) nd" by simp
      from lx have "lookupIn t ((cp @ [idx]) @ [Str ''key'']) = Some (stringLiteral [])"
        "lookupIn t ((cp @ [idx]) @ [Str ''value'']) = Some nd"
        unfolding lookupIn_append [of t "cp @ [idx]"] by (simp_all add: xp objectProperty_fields)
      then have "getIn t (cp @ [idx, Str ''key'']) = stringLiteral []"
        "getIn t (cp @ [idx, Str ''value'']) = nd"
        by (simp_all add: getIn_def)
      with False gx q xp show ?thesis by (simp add: objectProperty_fields)
    qed
  qed
  from one g three four show ?thesis by blast
qed

lemma prepare_showing_object:
  "prepare canon \<lparr>ast = document [objectExpression []], selected = SELECTED_PREFIX @ [Num 0]\<rparr>
     = Inr \<lparr>ast = document [objectExpression []], selected = SELECTED_PREFIX @ [Num 0]\<rparr>"
  by (simp add: eval_simps)

text \<open>
  The empty object as the one expression of a document, selected: \<^verbatim>\<open>insert\<close> of a null
  literal gives \<^verbatim>\<open>{"": null}\<close>, and the selection is the key of the new property.
\<close>

lemma insert_into_empty_object:
  "(\<exists>st'. insert_node (\<lambda>v. v) (\<lambda>t. ''text'') nullLiteral
             (showing (document [objectExpression []]) (SELECTED_PREFIX @ [Num 0])) = Inr st'
      \<and> history st' =
          [\<lparr>ast = document [objectExpression [property [] nullLiteral]],
            selected = SELECTED_PREFIX @ [Num 0, Str ''properties'', Num 0, Str ''key'']\<rparr>,
           \<lparr>ast = document [objectExpression []], selected = SELECTED_PREFIX @ [Num 0]\<rparr>]
      \<and> changes st' = [''text''])
   \<and> getIn (document [objectExpression [property [] nullLiteral]])
        (SELECTED_PREFIX @ [Num 0, Str ''properties'', Num 0, Str ''key'']) = stringLiteral []
   \<and> getIn (document [objectExpression [property [] nullLiteral]])
        (SELECTED_PREFIX @ [Num 0, Str ''properties'', Num 0, Str ''value'']) = nullLiteral"
proof -
  let ?d = "document [objectExpression []]"
  let ?sel = "SELECTED_PREFIX @ [Num 0]"
  let ?cp = "SELECTED_PREFIX @ [Num 0, Str ''properties'']"
  let ?x = "objectProperty (stringLiteral []) nullLiteral"
  let ?h = "\<lparr>ast = ?d, selected = ?sel\<rparr>"
  let ?t = "replaceIn ?d ?cp (IList (list_insert [] (Num 0) ?x))"
  have t: "?t = document [objectExpression [property [] nullLiteral]]"
    by (simp add: eval_simps map_eq)
  have hyp: "history (showing ?d ?sel) = [?h]"
    "path_last (selected ?h) \<noteq> Str ''end''"
    "getClosestCollectionPath (ast ?h) (selected ?h) = Inr ?cp"
    "Num 0 = or_zero (plus_one (path_get (selected ?h) (length ?cp)))"
    "lookupIn (ast ?h) (butlast ?cp) = Some (objectExpression [])"
    "lookupIn (ast ?h) ?cp = Some (IList [])"
    "isObjectExpression plain_read (objectExpression [])"
    "\<not> isArrayExpression plain_read (objectExpression [])"
    by (simp_all add: showing_def getClosestCollectionPath_def eval_simps)
  from insert_after_selection
    [where st = "showing ?d ?sel" and h = ?h and hs = "[]" and canon = "\<lambda>v. v" and s = ?h
       and cp = ?cp and idx = "Num 0" and c = "objectExpression []" and xs = "[]" and x = ?x
       and nd = nullLiteral and q = "?cp @ [Num 0, Str ''key'']" and t = ?t and i = 0
       and gen = "\<lambda>t. ''text''"]
    hyp prepare_showing_object [of "\<lambda>v. v"]
  have "(\<exists>st'. insert_node (\<lambda>v. v) (\<lambda>t. ''text'') nullLiteral (showing ?d ?sel) = Inr st'
            \<and> history st' = take MAX_HISTORY_LENGTH (\<lparr>ast = ?t, selected = ?cp @ [Num 0, Str ''key'']\<rparr> # [?h])
            \<and> contextValue st' = \<lparr>ast = ?t, selected = ?cp @ [Num 0, Str ''key'']\<rparr>
            \<and> changes st' = changes (showing ?d ?sel) @ [''text''])
       \<and> getIn ?t (?cp @ [Num 0, Str ''key'']) = stringLiteral []
       \<and> getIn ?t (?cp @ [Num 0, Str ''value'']) = nullLiteral"
    by simp
  then show ?thesis
    unfolding t by (auto simp add: MAX_HISTORY_LENGTH_def showing_def SELECTED_PREFIX_def)
qed

lemma prepare_at_inner_end:
  "prepare (\<lambda>v. v) \<lparr>ast = a_empty, selected = at_inner_end\<rparr>
     = Inr \<lparr>ast = a_empty, selected = at_inner_end\<rparr>"
  by (simp add: move_simps at_inner_end_def uint32_index_def is_digit_def)

lemma insert_fn_at_inner_end:
  "insert_fn nullLiteral a_empty at_inner_end =
     Inr (Some \<lparr>d_ast = Some a_empty_null,
                d_selected = Some (SELECTED_PREFIX @ [Num 0, Str ''properties'', Num 4, Str ''key''])\<rparr>)"
  by (simp add: insert_fn_def move_simps at_inner_end_def a_empty_null_def map_eq)

lemma prepare_at_outer_end:
  "prepare (\<lambda>v. v)
       \<lparr>ast = document [objectExpression []],
        selected = SELECTED_PREFIX @ [Num 0, Str ''properties'', Str ''end'']\<rparr>
     = Inr \<lparr>ast = document [objectExpression []],
            selected = SELECTED_PREFIX @ [Num 0, Str ''properties'', Str ''end'']\<rparr>"
  by (simp add: eval_simps uint32_index_def is_digit_def)

lemma insert_fn_at_outer_end:
  "insert_fn nullLiteral (document [objectExpression []])
       (SELECTED_PREFIX @ [Num 0, Str ''properties'', Str ''end'']) = Inr None"
  by (simp add: insert_fn_def move_simps uint32_index_def is_digit_def)

text \<open>
  C7. \<^verbatim>\<open>insert\<close> of a null literal at the end of an object, the selection being the
  path of its properties followed by \<^verbatim>\<open>'end'\<close>. At the end of the nested object of
  \<^verbatim>\<open>{a: {}}\<close>, the collection is looked for from the selection without its last three
  steps (line 265), which is the property \<^verbatim>\<open>a\<close>, and the index is the length of the
  path found (line 269), 4: the new property is added to the outer object, after
  \<^verbatim>\<open>a\<close>, the nested object stays empty, and the recorded selection, with the index
  4, resolves to nothing. At the end of the object \<^verbatim>\<open>{}\<close> that is the one expression of
  the document, the path found is empty, no collection is found, and nothing is
  inserted: the component stays as it is.
\<close>

theorem insert_at_end_misses:
  "insert_node (\<lambda>v. v) (\<lambda>t. ''text'') nullLiteral (showing a_empty at_inner_end) =
     Inr \<lparr>history =
            [\<lparr>ast = a_empty_null,
              selected = SELECTED_PREFIX @ [Num 0, Str ''properties'', Num 4, Str ''key'']\<rparr>,
             \<lparr>ast = a_empty, selected = at_inner_end\<rparr>],
          future = [],
          contextValue =
            \<lparr>ast = a_empty_null,
             selected = SELECTED_PREFIX @ [Num 0, Str ''properties'', Num 4, Str ''key'']\<rparr>,
          changes = [''text''], generated = [a_empty_null]\<rparr>
   \<and> getIn a_empty_null (SELECTED_PREFIX @ [Num 0, Str ''properties'', Num 4, Str ''key''])
       = P Undefined
   \<and> getIn a_empty_null (SELECTED_PREFIX @ [Num 0, Str ''properties'', Num 1])
       = property [] nullLiteral
   \<and> getIn a_empty_null
        (SELECTED_PREFIX @ [Num 0, Str ''properties'', Num 0, Str ''value'', Str ''properties''])
       = IList []
   \<and> insert_node (\<lambda>v. v) (\<lambda>t. ''text'') nullLiteral
        (showing (document [objectExpression []])
           (SELECTED_PREFIX @ [Num 0, Str ''properties'', Str ''end'']))
       = Inr (showing (document [objectExpression []])
                (SELECTED_PREFIX @ [Num 0, Str ''properties'', Str ''end'']))"
proof -
  let ?h = "\<lparr>ast = a_empty, selected = at_inner_end\<rparr>"
  let ?q = "SELECTED_PREFIX @ [Num 0, Str ''properties'', Num 4, Str ''key'']"
  let ?r = "Some \<lparr>d_ast = Some a_empty_null, d_selected = Some ?q\<rparr>"
  have m: "merge ?h ?r = \<lparr>ast = a_empty_null, selected = ?q\<rparr>" by (simp add: merge_def)
  have ne: "a_empty_null \<noteq> a_empty"
    by (rule getIn_differs [of _ "SELECTED_PREFIX @ [Num 0, Str ''properties'']"])
      (simp add: move_simps a_empty_null_def)
  have "addToHistory (\<lambda>v. v) (\<lambda>t. ''text'') (insert_fn nullLiteral) (showing a_empty at_inner_end)
      = Inr ((showing a_empty at_inner_end)
              \<lparr>changes := changes (showing a_empty at_inner_end) @ [(\<lambda>t. ''text'') (ast (merge ?h ?r))],
               generated := generated (showing a_empty at_inner_end) @ [ast (merge ?h ?r)],
               contextValue := merge ?h ?r, future := [],
               history := take MAX_HISTORY_LENGTH (merge ?h ?r # ?h # [])\<rparr>)"
  proof (rule addToHistory_tree)
    show "history (showing a_empty at_inner_end) = [?h]" by (simp add: showing_def)
    show "prepare (\<lambda>v. v) ?h = Inr ?h" by (rule prepare_at_inner_end)
    show "insert_fn nullLiteral (ast ?h) (selected ?h) = Inr ?r"
      using insert_fn_at_inner_end by simp
    show "ast (merge ?h ?r) \<noteq> ast ?h" unfolding m using ne by simp
    show "is_coll (ast (merge ?h ?r))"
      unfolding m by (simp add: a_empty_null_def document_def node_def)
  qed
  then have one: "insert_node (\<lambda>v. v) (\<lambda>t. ''text'') nullLiteral (showing a_empty at_inner_end) =
     Inr \<lparr>history = [\<lparr>ast = a_empty_null, selected = ?q\<rparr>, ?h], future = [],
          contextValue = \<lparr>ast = a_empty_null, selected = ?q\<rparr>,
          changes = [''text''], generated = [a_empty_null]\<rparr>"
    unfolding m by (simp add: insert_node_def showing_def MAX_HISTORY_LENGTH_def)
  have two: "getIn a_empty_null ?q = P Undefined"
    "getIn a_empty_null (SELECTED_PREFIX @ [Num 0, Str ''properties'', Num 1]) = property [] nullLiteral"
    "getIn a_empty_null
        (SELECTED_PREFIX @ [Num 0, Str ''properties'', Num 0, Str ''value'', Str ''properties''])
       = IList []"
    by (simp_all add: a_empty_null_def eval_simps)
  let ?e = "SELECTED_PREFIX @ [Num 0, Str ''properties'', Str ''end'']"
  let ?o = "\<lparr>ast = document [objectExpression []], selected = ?e\<rparr>"
  have "addToHistory (\<lambda>v. v) (\<lambda>t. ''text'') (insert_fn nullLiteral)
          (showing (document [objectExpression []]) ?e)
      = Inr ((showing (document [objectExpression []]) ?e)\<lparr>contextValue := merge ?o None\<rparr>)"
    by (rule addToHistory_unchanged [where h = ?o and hs = "[]"])
      (simp_all add: showing_def prepare_at_outer_end insert_fn_at_outer_end merge_def)
  then have three: "insert_node (\<lambda>v. v) (\<lambda>t. ''text'') nullLiteral
        (showing (document [objectExpression []]) ?e)
       = Inr (showing (document [objectExpression []]) ?e)"
    by (simp add: insert_node_def showing_def merge_def)
  from one two three show ?thesis by blast
qed

section \<open>Move\<close>

lemma prepare_at_b:
  "prepare (\<lambda>v. v) \<lparr>ast = a_b (numericLiteral (Num 1)), selected = at_b\<rparr>
     = Inr \<lparr>ast = a_b (numericLiteral (Num 1)), selected = at_b\<rparr>"
  "prepare (\<lambda>v. v) \<lparr>ast = a_b (objectExpression []), selected = at_b\<rparr>
     = Inr \<lparr>ast = a_b (objectExpression []), selected = at_b\<rparr>"
  by (simp_all add: move_simps)

lemma move_up_b_immutable:
  "moveSelected_fn immutable_read UP (a_b v) at_b = Inr None"
  by (simp add: moveSelected_fn_def move_simps)

lemma move_up_b_plain:
  "moveSelected_fn plain_read UP (a_b (objectExpression [])) at_b =
     Inr (Some \<lparr>d_ast = Some a_empty,
                d_selected = Some (SELECTED_PREFIX
                  @ [Num 0, Str ''properties'', Num 0, Str ''value'', Str ''properties'',
                     Num (- 1), Str ''value'', Str ''properties'', Num 0])\<rparr>)"
  by (simp add: moveSelected_fn_def move_simps map_eq)

lemma a_empty_differs: "a_empty \<noteq> a_b (objectExpression [])"
  by (rule getIn_differs
      [of _ "SELECTED_PREFIX @ [Num 0, Str ''properties'', Num 0, Str ''value'', Str ''properties'']"])
    (simp add: move_simps)

text \<open>
  C2. The document is \<^verbatim>\<open>{a: {b: v}}\<close> with \<^verbatim>\<open>b\<close> selected, and the action MOVE UP.
  With the nodes as \<^verbatim>\<open>Immutable.fromJS\<close> builds them, \<^verbatim>\<open>isObjectProperty(item)\<close> is
  false, the update function returns nothing, and the component stays as it is: no
  relocation, no commit. Were the tests to see the entries of the nodes, the move would
  still fail when the value of \<^verbatim>\<open>b\<close> is an object: \<^verbatim>\<open>newItemIndex\<close> is \<open>-1\<close>,
  \<^verbatim>\<open>getIn\<close> counts it from the end of the list and finds \<^verbatim>\<open>b\<close> itself as its target,
  the first case (lines 356-380) puts \<^verbatim>\<open>b\<close> into its own value and deletes it from the
  nested object, and the commit records the document \<^verbatim>\<open>{a: {}}\<close>.
\<close>

theorem move_up_out_of_nested_object_fails:
  "moveSelected (\<lambda>v. v) gen immutable_read UP (showing (a_b (numericLiteral (Num 1))) at_b)
     = Inr (showing (a_b (numericLiteral (Num 1))) at_b)
   \<and> moveSelected (\<lambda>v. v) gen immutable_read UP (showing (a_b (objectExpression [])) at_b)
     = Inr (showing (a_b (objectExpression [])) at_b)
   \<and> (\<exists>st'. moveSelected (\<lambda>v. v) gen plain_read UP (showing (a_b (objectExpression [])) at_b)
              = Inr st'
         \<and> ast (hd (history st')) = a_empty \<and> changes st' = [gen a_empty])"
proof -
  let ?h1 = "\<lparr>ast = a_b (numericLiteral (Num 1)), selected = at_b\<rparr>"
  let ?h2 = "\<lparr>ast = a_b (objectExpression []), selected = at_b\<rparr>"
  let ?r = "Some \<lparr>d_ast = Some a_empty,
                d_selected = Some (SELECTED_PREFIX
                  @ [Num 0, Str ''properties'', Num 0, Str ''value'', Str ''properties'',
                     Num (- 1), Str ''value'', Str ''properties'', Num 0])\<rparr>"
  have "addToHistory (\<lambda>v. v) gen (moveSelected_fn immutable_read UP)
          (showing (a_b (numericLiteral (Num 1))) at_b)
      = Inr ((showing (a_b (numericLiteral (Num 1))) at_b)\<lparr>contextValue := merge ?h1 None\<rparr>)"
    by (rule addToHistory_unchanged [where h = ?h1 and hs = "[]"])
      (simp_all add: showing_def prepare_at_b move_up_b_immutable merge_def)
  then have one: "moveSelected (\<lambda>v. v) gen immutable_read UP (showing (a_b (numericLiteral (Num 1))) at_b)
     = Inr (showing (a_b (numericLiteral (Num 1))) at_b)"
    by (simp add: moveSelected_def showing_def merge_def)
  have "addToHistory (\<lambda>v. v) gen (moveSelected_fn immutable_read UP)
          (showing (a_b (objectExpression [])) at_b)
      = Inr ((showing (a_b (objectExpression [])) at_b)\<lparr>contextValue := merge ?h2 None\<rparr>)"
    by (rule addToHistory_unchanged [where h = ?h2 and hs = "[]"])
      (simp_all add: showing_def prepare_at_b move_up_b_immutable merge_def)
  then have two: "moveSelected (\<lambda>v. v) gen immutable_read UP (showing (a_b (objectExpression [])) at_b)
     = Inr (showing (a_b (objectExpression [])) at_b)"
    by (simp add: moveSelected_def showing_def merge_def)
  have m: "ast (merge ?h2 ?r) = a_empty" by (simp add: merge_def)
  have "addToHistory (\<lambda>v. v) gen (moveSelected_fn plain_read UP)
          (showing (a_b (objectExpression [])) at_b)
      = Inr ((showing (a_b (objectExpression [])) at_b)
              \<lparr>changes := changes (showing (a_b (objectExpression [])) at_b) @ [gen (ast (merge ?h2 ?r))],
               generated := generated (showing (a_b (objectExpression [])) at_b) @ [ast (merge ?h2 ?r)],
               contextValue := merge ?h2 ?r, future := [],
               history := take MAX_HISTORY_LENGTH (merge ?h2 ?r # ?h2 # [])\<rparr>)"
  proof (rule addToHistory_tree)
    show "history (showing (a_b (objectExpression [])) at_b) = [?h2]" by (simp add: showing_def)
    show "prepare (\<lambda>v. v) ?h2 = Inr ?h2" by (rule prepare_at_b)
    show "moveSelected_fn plain_read UP (ast ?h2) (selected ?h2) = Inr ?r"
      using move_up_b_plain by simp
    show "ast (merge ?h2 ?r) \<noteq> ast ?h2" unfolding m using a_empty_differs by simp
    show "is_coll (ast (merge ?h2 ?r))" unfolding m by (simp add: a_empty_def document_def node_def)
  qed
  then have three: "\<exists>st'. moveSelected (\<lambda>v. v) gen plain_read UP (showing (a_b (objectExpression [])) at_b)
              = Inr st'
         \<and> ast (hd (history st')) = a_empty \<and> changes st' = [gen a_empty]"
    unfolding m by (simp add: moveSelected_def showing_def MAX_HISTORY_LENGTH_def merge_def)
  from one two three show ?thesis by blast
qed

subsection \<open>Moves on the example documents\<close>

lemma commit_showing:
  assumes "prepare canon \<lparr>ast = tree, selected = sel\<rparr> = Inr \<lparr>ast = tree, selected = sel\<rparr>"
    and "updateFn tree sel = Inr (Some \<lparr>d_ast = Some t, d_selected = Some q\<rparr>)"
    and "t \<noteq> tree" and "is_coll t"
  shows "addToHistory canon gen updateFn (showing tree sel) =
    Inr \<lparr>history = [\<lparr>ast = t, selected = q\<rparr>, \<lparr>ast = tree, selected = sel\<rparr>], future = [],
         contextValue = \<lparr>ast = t, selected = q\<rparr>, changes = [gen t], generated = [t]\<rparr>"
proof -
  let ?h = "\<lparr>ast = tree, selected = sel\<rparr>"
  let ?r = "Some \<lparr>d_ast = Some t, d_selected = Some q\<rparr>"
  have m: "merge ?h ?r = \<lparr>ast = t, selected = q\<rparr>" by (simp add: merge_def)
  have "addToHistory canon gen updateFn (showing tree sel)
      = Inr ((showing tree sel)
              \<lparr>changes := changes (showing tree sel) @ [gen (ast (merge ?h ?r))],
               generated := generated (showing tree sel) @ [ast (merge ?h ?r)],
               contextValue := merge ?h ?r, future := [],
               history := take MAX_HISTORY_LENGTH (merge ?h ?r # ?h # [])\<rparr>)"
  proof (rule addToHistory_tree)
    show "history (showing tree sel) = [?h]" by (simp add: showing_def)
    show "prepare canon ?h = Inr ?h" by (rule assms(1))
    show "updateFn (ast ?h) (selected ?h) = Inr ?r" using assms(2) by simp
    show "ast (merge ?h ?r) \<noteq> ast ?h" unfolding m using assms(3) by simp
    show "is_coll (ast (merge ?h ?r))" unfolding m using assms(4) by simp
  qed
  then show ?thesis unfolding m by (simp add: showing_def MAX_HISTORY_LENGTH_def)
qed

lemmas xyz_simps =
  x1_def z2_def x_y_def y_x_def y_xz_def y_zx_def key_of_def move_simps

lemma prepare_x_y:
  "prepare (\<lambda>v. v) \<lparr>ast = x_y, selected = key_of 0\<rparr> = Inr \<lparr>ast = x_y, selected = key_of 0\<rparr>"
  "prepare (\<lambda>v. v) \<lparr>ast = y_x, selected = key_of 1\<rparr> = Inr \<lparr>ast = y_x, selected = key_of 1\<rparr>"
  by (simp_all add: xyz_simps)

lemma move_down_x_immutable:
  "moveSelected_fn immutable_read DOWN x_y (key_of 0)
     = Inr (Some \<lparr>d_ast = Some y_x, d_selected = Some (key_of 1)\<rparr>)"
  by (simp add: moveSelected_fn_def xyz_simps map_eq)

lemma move_up_x_immutable:
  "moveSelected_fn immutable_read UP y_x (key_of 1)
     = Inr (Some \<lparr>d_ast = Some x_y, d_selected = Some (key_of 0)\<rparr>)"
  by (simp add: moveSelected_fn_def xyz_simps map_eq)

lemma xyz_differ:
  "y_x \<noteq> x_y" "y_x \<noteq> y_zx" "x_y \<noteq> y_xz"
proof -
  show "y_x \<noteq> y_zx" "x_y \<noteq> y_xz"
    by (rule getIn_differs [of _ "SELECTED_PREFIX @ [Num 0, Str ''properties'']"],
        simp add: xyz_simps)+
  show "y_x \<noteq> x_y"
    by (rule getIn_differs [of _ "key_of 0 @ [Str ''value'']"]) (simp add: xyz_simps)
qed

text \<open>
  C3. The object \<^verbatim>\<open>{x: 1, y: {z: 2}}\<close> with the key of \<^verbatim>\<open>x\<close> selected and the action
  MOVE DOWN, and the object \<^verbatim>\<open>{y: {z: 2}, x: 1}\<close> with the key of \<^verbatim>\<open>x\<close> selected and the
  action MOVE UP: in both the sibling of \<^verbatim>\<open>x\<close> in the direction of the move is the
  property \<^verbatim>\<open>y\<close>, whose value is an object. With the nodes as \<^verbatim>\<open>Immutable.fromJS\<close>
  builds them the tests of lines 350 and 356-360 fail, and the third case (lines
  416-421) exchanges \<^verbatim>\<open>x\<close> and \<^verbatim>\<open>y\<close>: the commit records \<^verbatim>\<open>{y: {z: 2}, x: 1}\<close> after
  the move down and \<^verbatim>\<open>{x: 1, y: {z: 2}}\<close> after the move up, the selection stays on the
  key of \<^verbatim>\<open>x\<close> in the outer object, and the object under \<^verbatim>\<open>y\<close> holds \<^verbatim>\<open>z\<close> alone, as
  before. The results are neither \<^verbatim>\<open>{y: {z: 2, x: 1}}\<close> nor \<^verbatim>\<open>{y: {x: 1, z: 2}}\<close>.
\<close>

theorem move_into_sibling_object_swaps:
  "moveSelected (\<lambda>v. v) gen immutable_read DOWN (showing x_y (key_of 0)) =
     Inr \<lparr>history = [\<lparr>ast = y_x, selected = key_of 1\<rparr>, \<lparr>ast = x_y, selected = key_of 0\<rparr>],
          future = [], contextValue = \<lparr>ast = y_x, selected = key_of 1\<rparr>,
          changes = [gen y_x], generated = [y_x]\<rparr>
   \<and> moveSelected (\<lambda>v. v) gen immutable_read UP (showing y_x (key_of 1)) =
     Inr \<lparr>history = [\<lparr>ast = x_y, selected = key_of 0\<rparr>, \<lparr>ast = y_x, selected = key_of 1\<rparr>],
          future = [], contextValue = \<lparr>ast = x_y, selected = key_of 0\<rparr>,
          changes = [gen x_y], generated = [x_y]\<rparr>
   \<and> getIn y_x (SELECTED_PREFIX @ [Num 0, Str ''properties'', Num 0, Str ''value'', Str ''properties''])
       = IList [z2]
   \<and> getIn x_y (SELECTED_PREFIX @ [Num 0, Str ''properties'', Num 1, Str ''value'', Str ''properties''])
       = IList [z2]
   \<and> y_x \<noteq> y_zx \<and> y_x \<noteq> y_xz \<and> x_y \<noteq> y_xz \<and> x_y \<noteq> y_zx"
proof -
  have c: "is_coll y_x" "is_coll x_y" by (simp_all add: y_x_def x_y_def document_def node_def)
  have "moveSelected (\<lambda>v. v) gen immutable_read DOWN (showing x_y (key_of 0)) =
     Inr \<lparr>history = [\<lparr>ast = y_x, selected = key_of 1\<rparr>, \<lparr>ast = x_y, selected = key_of 0\<rparr>],
          future = [], contextValue = \<lparr>ast = y_x, selected = key_of 1\<rparr>,
          changes = [gen y_x], generated = [y_x]\<rparr>"
    unfolding moveSelected_def
    using prepare_x_y(1) move_down_x_immutable xyz_differ(1) c(1) by (rule commit_showing)
  moreover
  have "moveSelected (\<lambda>v. v) gen immutable_read UP (showing y_x (key_of 1)) =
     Inr \<lparr>history = [\<lparr>ast = x_y, selected = key_of 0\<rparr>, \<lparr>ast = y_x, selected = key_of 1\<rparr>],
          future = [], contextValue = \<lparr>ast = x_y, selected = key_of 0\<rparr>,
          changes = [gen x_y], generated = [x_y]\<rparr>"
    unfolding moveSelected_def
    using prepare_x_y(2) move_up_x_immutable xyz_differ(1) [symmetric] c(2) by (rule commit_showing)
  moreover
  have "getIn y_x (SELECTED_PREFIX @ [Num 0, Str ''properties'', Num 0, Str ''value'', Str ''properties''])
       = IList [z2]"
    "getIn x_y (SELECTED_PREFIX @ [Num 0, Str ''properties'', Num 1, Str ''value'', Str ''properties''])
       = IList [z2]"
    by (simp_all add: xyz_simps)
  moreover
  have "y_x \<noteq> y_xz" "x_y \<noteq> y_zx"
    by (rule getIn_differs [of _ "SELECTED_PREFIX @ [Num 0, Str ''properties'']"],
        simp add: xyz_simps)+
  ultimately show ?thesis using xyz_differ(2,3) by blast
qed

end
